theory Spec2Isabelle
  imports Complex_Main "HOL-Library.Sublist"
begin

section \<open>Data model\<close>

text \<open>
  Python strings are modelled as \<^typ>\<open>string\<close> over ASCII text; the literal \<open>0.1\<close> of the
  source is the real number one tenth.
  Exceptions are values: a function that can raise returns \<open>py_error + 'a\<close>, with
  \<open>Inl\<close> for the exception.
\<close>

datatype py_error =
    KeyError string
  | ZeroDivisionError
  | IndexError
  | TextBlobError string
  | EmptyInputError

text \<open>
  \<open>EmptyInputError\<close> is the error kind the specification names; no function of
  \<open>sentiment_analyzer.py\<close> or \<open>text_summarizer.py\<close> raises it. \<open>TextBlobError\<close> stands for
  any exception raised inside the external \<open>TextBlob\<close> capability.
\<close>

record comment =
  comment_id :: int
  stakeholder_name :: string
  comment_text :: string
  provision_reference :: string

text \<open>
  The dictionary returned by \<open>analyze_sentiment\<close>; its key \<open>'sentiment'\<close> is the field
  \<open>label\<close> here, because the rows of the result table have a column of the same name.
\<close>

record analysis =
  polarity :: real
  subjectivity :: real
  label :: string

text \<open>A row of the table built by \<open>analyze_comments_batch\<close>.\<close>

record sentiment_row = comment +
  sentiment :: string
  polarity_score :: real
  subjectivity_score :: real

text \<open>
  The external capability \<open>TextBlob(text).sentiment\<close>: given a text it returns a polarity and
  a subjectivity, or raises.
\<close>

type_synonym textblob = "string \<Rightarrow> py_error + real \<times> real"

text \<open>
  A float is modelled as the real number it denotes, and comparisons of floats are the
  comparisons of these reals. The float operations that round their result are not
  computed here: they are a parameter of every function that uses them, so that what is
  proved holds for the operations of the interpreter, whatever they return.
  \<^item> \<open>round_float x d\<close> is the builtin \<open>round(x, d)\<close> on a Python \<open>float\<close>;
  \<^item> \<open>round_np x d\<close> is \<open>round(x, d)\<close> on the value \<open>Series.mean()\<close> returns;
  \<^item> \<open>series_mean xs\<close> is \<open>Series.mean()\<close> of a non-empty float column;
  \<^item> \<open>int_truediv a b\<close> is \<open>a / b\<close> on two Python integers, \<open>b\<close> not zero;
  \<^item> \<open>float_mul x y\<close> is \<open>x * y\<close> on floats.
\<close>

record float_ops =
  round_float :: "real \<Rightarrow> nat \<Rightarrow> real"
  round_np :: "real \<Rightarrow> nat \<Rightarrow> real"
  series_mean :: "real list \<Rightarrow> real"
  int_truediv :: "nat \<Rightarrow> nat \<Rightarrow> real"
  float_mul :: "real \<Rightarrow> real \<Rightarrow> real"

section \<open>Python string primitives\<close>

text \<open>
  \<open>str.isspace\<close> on ASCII: the characters \<open>str.split()\<close> and \<open>str.strip()\<close> treat as white
  space and the class \<open>\s\<close> of \<open>re\<close> matches (codes 9 to 13, 28 to 31 and 32).
\<close>

definition isspace :: "char \<Rightarrow> bool" where
  "isspace c = (let n = (of_char c :: nat) in (9 \<le> n \<and> n \<le> 13) \<or> (28 \<le> n \<and> n \<le> 32))"

definition isalpha :: "char \<Rightarrow> bool" where
  "isalpha c = (let n = (of_char c :: nat) in (65 \<le> n \<and> n \<le> 90) \<or> (97 \<le> n \<and> n \<le> 122))"

definition lower_char :: "char \<Rightarrow> char" where
  "lower_char c = (let n = (of_char c :: nat) in if 65 \<le> n \<and> n \<le> 90 then char_of (n + 32) else c)"

definition lower :: "string \<Rightarrow> string" where
  "lower s = map lower_char s"

text \<open>\<open>text.split()\<close>: skip white space, read a maximal run of other characters, repeat.\<close>

function split :: "string \<Rightarrow> string list" where
  "split s =
     (case dropWhile isspace s of
        [] \<Rightarrow> []
      | c # cs \<Rightarrow> takeWhile (\<lambda>x. \<not> isspace x) (c # cs) # split (dropWhile (\<lambda>x. \<not> isspace x) (c # cs)))"
  by pat_completeness auto
termination
proof (relation "measure length", goal_cases)
  case 1
  show ?case by simp
next
  case (2 s c cs)
  have nc: "\<not> isspace c"
    using 2 hd_dropWhile [of isspace s] by auto
  have a: "length (dropWhile (\<lambda>x. \<not> isspace x) cs) \<le> length cs"
    by (rule length_dropWhile_le)
  have b: "length (dropWhile isspace s) \<le> length s"
    by (rule length_dropWhile_le)
  show ?case using 2 nc a b by simp
qed

declare split.simps [simp del]

text \<open>\<open>text.split(sep)\<close> for a one-character separator: empty pieces are kept.\<close>

fun split_on :: "char \<Rightarrow> string \<Rightarrow> string list" where
  "split_on sep [] = [[]]"
| "split_on sep (c # cs) =
     (if c = sep then [] # split_on sep cs
      else (case split_on sep cs of
              [] \<Rightarrow> [[c]]
            | w # ws \<Rightarrow> (c # w) # ws))"

definition strip :: "string \<Rightarrow> string" where
  "strip s = rev (dropWhile isspace (rev (dropWhile isspace s)))"

text \<open>\<open>sep.join(xs)\<close>.\<close>

fun join :: "string \<Rightarrow> string list \<Rightarrow> string" where
  "join sep [] = []"
| "join sep [x] = x"
| "join sep (x # y # ys) = x @ sep @ join sep (y # ys)"

text \<open>\<open>sub in s\<close> for strings: \<open>sub\<close> occurs as a contiguous piece of \<open>s\<close>.\<close>

fun contains :: "string \<Rightarrow> string \<Rightarrow> bool" where
  "contains sub [] = (sub = [])"
| "contains sub (c # cs) = (prefix sub (c # cs) \<or> contains sub cs)"

text \<open>\<open>re.sub(r'[^a-zA-Z\s]', '', text)\<close>: delete what is neither an ASCII letter nor white space.\<close>

definition re_sub_nonalpha :: "string \<Rightarrow> string" where
  "re_sub_nonalpha text = filter (\<lambda>c. isalpha c \<or> isspace c) text"

text \<open>
  Slicing \<open>xs[:n]\<close> with Python's reading of a negative bound (counted from the end).
\<close>

definition slice_to :: "int \<Rightarrow> 'a list \<Rightarrow> 'a list" where
  "slice_to n xs = (if n < 0 then take (nat (int (length xs) + n)) xs else take (nat n) xs)"

section \<open>Dictionaries and counters\<close>

text \<open>
  A Python \<open>dict\<close> is an association list with distinct keys, in insertion order.
  \<open>Counter(words)\<close> counts in one pass: a new word is appended with count 1, a known one
  is incremented in place.
\<close>

fun dict_get :: "('k \<times> 'v) list \<Rightarrow> 'k \<Rightarrow> 'v \<Rightarrow> 'v" where
  "dict_get [] k d = d"
| "dict_get ((k', v) # kvs) k d = (if k' = k then v else dict_get kvs k d)"

fun dict_set :: "('k \<times> 'v) list \<Rightarrow> 'k \<Rightarrow> 'v \<Rightarrow> ('k \<times> 'v) list" where
  "dict_set [] k v = [(k, v)]"
| "dict_set ((k', v') # kvs) k v = (if k' = k then (k, v) # kvs else (k', v') # dict_set kvs k v)"

fun counter_add :: "('k \<times> nat) list \<Rightarrow> 'k \<Rightarrow> ('k \<times> nat) list" where
  "counter_add [] w = [(w, 1)]"
| "counter_add ((k, n) # kvs) w = (if k = w then (k, Suc n) # kvs else (k, n) # counter_add kvs w)"

definition Counter :: "'k list \<Rightarrow> ('k \<times> nat) list" where
  "Counter ws = foldl counter_add [] ws"

text \<open>
  \<open>Counter.most_common(n)\<close>: the items by descending count, equal counts in insertion
  order, cut to \<open>n\<close> items (none for \<open>n \<le> 0\<close>).
\<close>

definition most_common :: "int \<Rightarrow> ('k \<times> nat) list \<Rightarrow> ('k \<times> nat) list" where
  "most_common n d = take (nat n) (sort_key (\<lambda>kv. - int (snd kv)) d)"

section \<open>Sentiment scoring\<close>

definition analyze_sentiment :: "textblob \<Rightarrow> string \<Rightarrow> py_error + analysis" where
  "analyze_sentiment blob text =
     (case blob text of
        Inl e \<Rightarrow> Inl e
      | Inr (p, s) \<Rightarrow>
          Inr \<lparr>polarity = p, subjectivity = s,
               label = (if p > 0.1 then ''Positive''
                        else if p < - 0.1 then ''Negative''
                        else ''Neutral'')\<rparr>)"

text \<open>
  A \<open>pandas.DataFrame\<close> of rows of type \<open>'r\<close>. \<open>pd.DataFrame([])\<close> has no columns at all,
  so reading a column of it raises \<open>KeyError\<close>; a frame built from at least one row, or
  emptied by filtering, keeps its columns.
\<close>

datatype 'r dataframe = DataFrame (has_columns: bool) (rows: "'r list")

definition pd_DataFrame :: "'r list \<Rightarrow> 'r dataframe" where
  "pd_DataFrame results = DataFrame (results \<noteq> []) results"

text \<open>\<open>Series.unique()\<close>: the distinct values in order of first appearance.\<close>

definition unique :: "'a list \<Rightarrow> 'a list" where
  "unique xs = map fst (Counter xs)"

text \<open>
  \<open>Series.value_counts().to_dict()\<close>: the values that occur, each with the number of its
  occurrences, most frequent first. The order among equal counts is the one of first
  appearance here; no theorem below depends on it.
\<close>

definition value_counts :: "'a list \<Rightarrow> ('a \<times> nat) list" where
  "value_counts xs = sort_key (\<lambda>kv. - int (snd kv)) (Counter xs)"

fun batch_loop ::
    "float_ops \<Rightarrow> textblob \<Rightarrow> comment list \<Rightarrow> sentiment_row list
       \<Rightarrow> py_error + sentiment_row list" where
  "batch_loop ops blob [] results = Inr results"
| "batch_loop ops blob (row # rest) results =
     (case analyze_sentiment blob (comment_text row) of
        Inl e \<Rightarrow> Inl e
      | Inr a \<Rightarrow>
          batch_loop ops blob rest
            (results @
             [\<lparr>comment_id = comment_id row,
               stakeholder_name = stakeholder_name row,
               comment_text = comment_text row,
               provision_reference = provision_reference row,
               sentiment = label a,
               polarity_score = round_float ops (polarity a) 3,
               subjectivity_score = round_float ops (subjectivity a) 3\<rparr>]))"

definition analyze_comments_batch ::
    "float_ops \<Rightarrow> textblob \<Rightarrow> comment list \<Rightarrow> py_error + sentiment_row dataframe" where
  "analyze_comments_batch ops blob comments_df =
     (case batch_loop ops blob comments_df [] of
        Inl e \<Rightarrow> Inl e
      | Inr results \<Rightarrow> Inr (pd_DataFrame results))"

record overall_stats =
  overall_sentiment :: string
  average_polarity :: real
  sentiment_distribution :: "(string \<times> nat) list"
  total_comments :: nat
  positive_percentage :: real
  negative_percentage :: real
  neutral_percentage :: real

text \<open>
  On a frame with columns and no rows, \<open>value_counts\<close> is empty and the mean is NaN, which
  fails both comparisons; the first thing to raise is the division \<open>0 / len(sentiments_df)\<close>
  of \<open>positive_percentage\<close>.
\<close>

definition get_overall_sentiment ::
    "float_ops \<Rightarrow> sentiment_row dataframe \<Rightarrow> py_error + overall_stats" where
  "get_overall_sentiment ops sentiments_df =
     (if \<not> has_columns sentiments_df then Inl (KeyError ''sentiment'')
      else
        let sentiment_counts = value_counts (map sentiment (rows sentiments_df));
            n = length (rows sentiments_df)
        in if n = 0 then Inl ZeroDivisionError
           else
             let avg_polarity = series_mean ops (map polarity_score (rows sentiments_df));
                 overall = (if avg_polarity > 0.1 then ''Positive''
                            else if avg_polarity < - 0.1 then ''Negative''
                            else ''Neutral'')
             in Inr \<lparr>overall_sentiment = overall,
                     average_polarity = round_np ops avg_polarity 3,
                     sentiment_distribution = sentiment_counts,
                     total_comments = n,
                     positive_percentage =
                       round_float ops
                         (float_mul ops (int_truediv ops (dict_get sentiment_counts ''Positive'' 0) n) 100) 1,
                     negative_percentage =
                       round_float ops
                         (float_mul ops (int_truediv ops (dict_get sentiment_counts ''Negative'' 0) n) 100) 1,
                     neutral_percentage =
                       round_float ops
                         (float_mul ops (int_truediv ops (dict_get sentiment_counts ''Neutral'' 0) n) 100) 1\<rparr>)"

definition stop_words :: "string list" where
  "stop_words =
     [''the'', ''is'', ''at'', ''which'', ''on'', ''and'', ''a'', ''an'', ''in'',
      ''to'', ''for'', ''of'', ''with'', ''as'', ''by'', ''that'', ''this'',
      ''it'', ''from'', ''or'', ''but'', ''are'', ''was'', ''were'', ''be'',
      ''have'', ''has'', ''had'', ''do'', ''does'', ''did'', ''will'', ''would'',
      ''could'', ''should'', ''may'', ''might'', ''must'', ''can'', ''shall'']"

text \<open>The list \<open>keywords\<close> of \<open>extract_keywords\<close>: the tokens that are counted.\<close>

definition keywords_of :: "string \<Rightarrow> string list" where
  "keywords_of text =
     filter (\<lambda>word. word \<notin> set stop_words \<and> length word > 3)
       (split (re_sub_nonalpha (lower text)))"

definition extract_keywords :: "string \<Rightarrow> int \<Rightarrow> (string \<times> nat) list" where
  "extract_keywords text num_keywords = most_common num_keywords (Counter (keywords_of text))"

record provision_stats =
  count :: nat
  avg_polarity :: real
  sentiments :: "(string \<times> nat) list"

definition get_provision_wise_sentiment ::
    "float_ops \<Rightarrow> sentiment_row dataframe \<Rightarrow> py_error + (string \<times> provision_stats) list" where
  "get_provision_wise_sentiment ops sentiments_df =
     (if \<not> has_columns sentiments_df then Inl (KeyError ''provision_reference'')
      else
        Inr (map (\<lambda>provision.
                    let provision_data =
                          filter (\<lambda>r. provision_reference r = provision) (rows sentiments_df)
                    in (provision,
                        \<lparr>count = length provision_data,
                         avg_polarity =
                           round_np ops (series_mean ops (map polarity_score provision_data)) 3,
                         sentiments = value_counts (map sentiment provision_data)\<rparr>))
                 (unique (map provision_reference (rows sentiments_df)))))"

record stakeholder_counts =
  positive :: nat
  negative :: nat
  neutral :: nat
  total_c :: nat

record analysis_result =
  summary :: "(string \<times> nat) list"
  detailed :: "sentiment_row dataframe"
  by_provision :: "(string \<times> provision_stats) list"
  by_stakeholder :: "(string \<times> stakeholder_counts) list"
  overall_stats :: overall_stats

definition stakeholder_sentiment :: "sentiment_row list \<Rightarrow> (string \<times> stakeholder_counts) list" where
  "stakeholder_sentiment detailed_rows =
     map (\<lambda>stakeholder.
            let stakeholder_data = filter (\<lambda>r. stakeholder_name r = stakeholder) detailed_rows
            in (stakeholder,
                \<lparr>positive = length (filter (\<lambda>r. sentiment r = ''Positive'') stakeholder_data),
                 negative = length (filter (\<lambda>r. sentiment r = ''Negative'') stakeholder_data),
                 neutral = length (filter (\<lambda>r. sentiment r = ''Neutral'') stakeholder_data),
                 total_c = length stakeholder_data\<rparr>))
         (unique (map stakeholder_name detailed_rows))"

definition sentiment_summary :: "(string \<times> nat) list \<Rightarrow> (string \<times> nat) list" where
  "sentiment_summary distribution = foldl (\<lambda>d (key, v). dict_set d (lower key) v) [] distribution"

definition analyze :: "float_ops \<Rightarrow> textblob \<Rightarrow> comment list \<Rightarrow> py_error + analysis_result" where
  "analyze ops blob df =
     (case analyze_comments_batch ops blob df of
        Inl e \<Rightarrow> Inl e
      | Inr detailed_results \<Rightarrow>
          (case get_overall_sentiment ops detailed_results of
             Inl e \<Rightarrow> Inl e
           | Inr stats \<Rightarrow>
               (case get_provision_wise_sentiment ops detailed_results of
                  Inl e \<Rightarrow> Inl e
                | Inr provision_sentiment \<Rightarrow>
                    Inr \<lparr>summary = sentiment_summary (sentiment_distribution stats),
                         detailed = detailed_results,
                         by_provision = provision_sentiment,
                         by_stakeholder = stakeholder_sentiment (rows detailed_results),
                         overall_stats = stats\<rparr>)))"

section \<open>Text summarizer\<close>

definition ts_stop_words :: "string list" where
  "ts_stop_words =
     [''the'', ''is'', ''at'', ''which'', ''on'', ''and'', ''a'', ''an'', ''in'',
      ''to'', ''for'', ''of'', ''with'', ''as'', ''by'', ''that'', ''this'',
      ''it'', ''from'', ''or'', ''but'', ''are'', ''was'', ''were'', ''be'']"

text \<open>The list \<open>words\<close> of \<open>_get_word_frequency\<close>: the tokens that are counted.\<close>

definition frequency_words :: "string \<Rightarrow> string list" where
  "frequency_words text =
     filter (\<lambda>word. word \<notin> set ts_stop_words \<and> length word > 2)
       (split (re_sub_nonalpha (lower text)))"

definition get_word_frequency :: "string \<Rightarrow> (string \<times> real) list" where
  "get_word_frequency text =
     (let word_freq = Counter (frequency_words text);
          max_freq = (if word_freq \<noteq> [] then Max (set (map snd word_freq)) else 1)
      in map (\<lambda>(word, c). (word, real c / real max_freq)) word_freq)"

definition sentence_scores :: "(string \<times> real) list \<Rightarrow> string list \<Rightarrow> (string \<times> real) list" where
  "sentence_scores word_freq sentences =
     foldl (\<lambda>scores sentence0.
              let sentence = strip sentence0 in
              if length sentence > 0 then
                let words_in_sentence = split (lower sentence);
                    score = sum_list (map (\<lambda>word. dict_get word_freq word 0) words_in_sentence)
                in dict_set scores sentence
                     (if words_in_sentence \<noteq> [] then score / real (length words_in_sentence) else 0)
              else scores)
           [] sentences"

definition summarize_single_comment :: "string \<Rightarrow> int \<Rightarrow> string" where
  "summarize_single_comment text max_length =
     (let words = split text in
      if int (length words) \<le> max_length then text
      else
        let sentences = split_on CHR ''.'' text in
        if length sentences \<le> 2 then join '' '' (slice_to max_length words) @ ''...''
        else
          let word_freq = get_word_frequency text;
              top_sentences = take 2 (sort_key (\<lambda>kv. - snd kv) (sentence_scores word_freq sentences));
              summary = join ''. '' (map fst top_sentences);
              summary_words = split summary
          in if int (length summary_words) > max_length
             then join '' '' (slice_to max_length summary_words) @ ''...''
             else summary)"

text \<open>
  The \<open>if\<close>/\<open>elif\<close> chain of \<open>create_stakeholder_summary\<close> that picks the group of a
  (lowercased) stakeholder name.
\<close>

definition stakeholder_group :: "string \<Rightarrow> string" where
  "stakeholder_group name =
     (if contains ''firm'' name \<or> contains ''legal'' name \<or> contains ''lawyer'' name
        then ''Legal''
      else if contains ''business'' name \<or> contains ''company'' name \<or> contains ''ceo'' name
              \<or> contains ''founder'' name
        then ''Business''
      else if contains ''ministry'' name \<or> contains ''government'' name
        then ''Government''
      else if contains ''association'' name \<or> contains ''chamber'' name \<or> contains ''group'' name
              \<or> contains ''org'' name
        then ''Association''
      else ''Individual'')"

text \<open>\<open>stakeholder_groups[key].append(row)\<close>.\<close>

definition dict_append :: "('k \<times> 'v list) list \<Rightarrow> 'k \<Rightarrow> 'v \<Rightarrow> ('k \<times> 'v list) list" where
  "dict_append groups key row = map (\<lambda>(k, v). if k = key then (k, v @ [row]) else (k, v)) groups"

text \<open>
  The first loop of \<open>create_stakeholder_summary\<close>. \<open>.iloc[0]\<close> raises \<open>IndexError\<close> when no row
  of \<open>sentiments_df\<close> has the comment's id.
\<close>

fun group_loop ::
    "comment list \<Rightarrow> sentiment_row dataframe \<Rightarrow> (string \<times> sentiment_row list) list
       \<Rightarrow> py_error + (string \<times> sentiment_row list) list" where
  "group_loop [] sentiments_df groups = Inr groups"
| "group_loop (row # rest) sentiments_df groups =
     (let name = lower (stakeholder_name row) in
      if \<not> has_columns sentiments_df then Inl (KeyError ''comment_id'')
      else (case filter (\<lambda>r. comment_id r = comment_id row) (rows sentiments_df) of
              [] \<Rightarrow> Inl IndexError
            | sentiment_row # _ \<Rightarrow>
                group_loop rest sentiments_df (dict_append groups (stakeholder_group name) sentiment_row)))"

text \<open>The dictionary \<open>stakeholder_groups\<close> before the loop.\<close>

definition stakeholder_groups_init :: "(string \<times> sentiment_row list) list" where
  "stakeholder_groups_init =
     [(''Business'', []), (''Legal'', []), (''Government'', []), (''Individual'', []),
      (''Association'', [])]"

record group_stats =
  group_count :: nat
  group_distribution :: "(string \<times> nat) list"
  group_average_polarity :: real

definition create_stakeholder_summary ::
    "float_ops \<Rightarrow> comment list \<Rightarrow> sentiment_row dataframe
       \<Rightarrow> py_error + (string \<times> group_stats) list" where
  "create_stakeholder_summary ops comments_df sentiments_df =
     (case group_loop comments_df sentiments_df stakeholder_groups_init of
        Inl e \<Rightarrow> Inl e
      | Inr stakeholder_groups \<Rightarrow>
          Inr (map (\<lambda>(group, comments).
                      (group,
                       \<lparr>group_count = length comments,
                        group_distribution = value_counts (map sentiment comments),
                        group_average_polarity =
                          round_np ops (series_mean ops (map polarity_score comments)) 3\<rparr>))
                   (filter (\<lambda>(group, comments). comments \<noteq> []) stakeholder_groups)))"

section \<open>Specification-level notions and fixtures\<close>

text \<open>
  The row \<open>analyze_comments_batch\<close> appends for a comment on which the external capability
  succeeds, written in one piece.
\<close>

definition scored :: "float_ops \<Rightarrow> textblob \<Rightarrow> comment \<Rightarrow> sentiment_row" where
  "scored ops blob row =
     (let p = fst (projr (blob (comment_text row))); s = snd (projr (blob (comment_text row))) in
      \<lparr>comment_id = comment_id row,
       stakeholder_name = stakeholder_name row,
       comment_text = comment_text row,
       provision_reference = provision_reference row,
       sentiment = (if p > 0.1 then ''Positive'' else if p < - 0.1 then ''Negative'' else ''Neutral''),
       polarity_score = round_float ops p 3,
       subjectivity_score = round_float ops s 3\<rparr>)"

text \<open>The position at which a word is first met in a list (its length if it is not there).\<close>

definition first_pos :: "'a list \<Rightarrow> 'a \<Rightarrow> nat" where
  "first_pos ws w = length (takeWhile (\<lambda>x. x \<noteq> w) ws)"

text \<open>
  Exact decimal arithmetic, a stand-in for the float operations in the examples below:
  rounding to the nearest multiple of \<open>10 ^ - d\<close> with a tie going to the even neighbour,
  and the exact mean, quotient and product.
\<close>

definition round_half_even :: "real \<Rightarrow> int" where
  "round_half_even y =
     (let f = \<lfloor>y\<rfloor>; d = y - of_int f in
      if d < 1 / 2 then f else if d > 1 / 2 then f + 1 else if even f then f else f + 1)"

definition exact_round :: "real \<Rightarrow> nat \<Rightarrow> real" where
  "exact_round x d = of_int (round_half_even (x * 10 ^ d)) / 10 ^ d"

definition exact_mean :: "real list \<Rightarrow> real" where
  "exact_mean xs = sum_list xs / real (length xs)"

definition exact_ops :: float_ops where
  "exact_ops =
     \<lparr>round_float = exact_round, round_np = exact_round, series_mean = exact_mean,
      int_truediv = (\<lambda>a b. real a / real b), float_mul = (\<lambda>x y. x * y)\<rparr>"

text \<open>A stand-in for the external capability, failing on one text.\<close>

definition blob_stub :: textblob where
  "blob_stub text =
     (if text = ''bad'' then Inl (TextBlobError ''bad'')
      else if text = ''good'' then Inr (0.5, 0.6)
      else if text = ''poor'' then Inr (- 0.4, 0.7)
      else if text = ''mild'' then Inr (0.125, 0.5)
      else Inr (0, 0))"

definition mk_comment :: "int \<Rightarrow> string \<Rightarrow> string \<Rightarrow> string \<Rightarrow> comment" where
  "mk_comment i n t p =
     \<lparr>comment_id = i, stakeholder_name = n, comment_text = t, provision_reference = p\<rparr>"

definition example_batch :: "comment list" where
  "example_batch =
     [mk_comment 1 ''Ann'' ''good'' ''S1'', mk_comment 2 ''Bob'' ''fine'' ''S1'',
      mk_comment 3 ''Ann'' ''fine'' ''S2'']"

text \<open>
  A batch with polarities 0.5, 0, 0 and 0.125, on which every float operation of the code
  is exact, the final rounding apart.
\<close>

definition dyadic_batch :: "comment list" where
  "dyadic_batch =
     [mk_comment 1 ''Ann'' ''good'' ''S1'', mk_comment 2 ''Bob'' ''fine'' ''S1'',
      mk_comment 3 ''Ann'' ''fine'' ''S2'', mk_comment 4 ''Cy'' ''mild'' ''S2'']"

text \<open>Three stakeholders of three kinds, and the table of their scored comments.\<close>

definition stakeholder_batch :: "comment list" where
  "stakeholder_batch =
     [mk_comment 1 ''Acme Legal Partners'' ''good'' ''S1'', mk_comment 2 ''Jane Doe'' ''fine'' ''S1'',
      mk_comment 3 ''Ministry of Finance'' ''poor'' ''S2'']"

definition stakeholder_frame :: "sentiment_row dataframe" where
  "stakeholder_frame = pd_DataFrame (map (scored exact_ops blob_stub) stakeholder_batch)"

definition failing_batch :: "comment list" where
  "failing_batch =
     [mk_comment 1 ''Ann'' ''good'' ''S1'', mk_comment 2 ''Bob'' ''bad'' ''S1'',
      mk_comment 3 ''Cy'' ''poor'' ''S2'']"

section \<open>Auxiliary lemmas\<close>

lemma batch_loop_ok:
  "\<forall>c\<in>set cs. \<not> isl (blob (comment_text c)) \<Longrightarrow>
   batch_loop ops blob cs acc = Inr (acc @ map (scored ops blob) cs)"
proof (induction cs arbitrary: acc)
  case Nil
  then show ?case by simp
next
  case (Cons c cs)
  from Cons.prems obtain p s where ps: "blob (comment_text c) = Inr (p, s)"
    by (cases "blob (comment_text c)") auto
  have "batch_loop ops blob (c # cs) acc = batch_loop ops blob cs (acc @ [scored ops blob c])"
    by (simp add: analyze_sentiment_def ps scored_def)
  also have "\<dots> = Inr ((acc @ [scored ops blob c]) @ map (scored ops blob) cs)"
    using Cons.prems by (intro Cons.IH) simp
  finally show ?case by simp
qed

lemma analyze_comments_batch_ok:
  assumes "cs \<noteq> []" and "\<forall>c\<in>set cs. \<not> isl (blob (comment_text c))"
  shows "analyze_comments_batch ops blob cs = Inr (DataFrame True (map (scored ops blob) cs))"
  using batch_loop_ok [OF assms(2), of ops "[]"] assms(1)
  by (simp add: analyze_comments_batch_def pd_DataFrame_def)

lemma polarity_score_scored:
  "map polarity_score (map (scored ops blob) cs) =
   map (\<lambda>c. round_float ops (fst (projr (blob (comment_text c)))) 3) cs"
  by (simp add: scored_def Let_def)

lemma sentiment_scored: "sentiment (scored ops blob c) \<in> {''Positive'', ''Negative'', ''Neutral''}"
  by (simp add: scored_def Let_def)

text \<open>Counters and \<open>value_counts\<close>.\<close>

lemma counter_add_keys:
  "map fst (counter_add d w) = (if w \<in> set (map fst d) then map fst d else map fst d @ [w])"
  by (induction d w rule: counter_add.induct) auto

lemma counter_add_map_of:
  "map_of (counter_add d w) = (map_of d)(w \<mapsto> (case map_of d w of None \<Rightarrow> 1 | Some n \<Rightarrow> Suc n))"
  by (induction d w rule: counter_add.induct) (auto simp: fun_eq_iff)

lemma counter_add_sum: "sum_list (map snd (counter_add d w)) = Suc (sum_list (map snd d))"
  by (induction d w rule: counter_add.induct) auto

lemma counter_add_pos:
  "\<forall>kv\<in>set d. 0 < snd kv \<Longrightarrow> \<forall>kv\<in>set (counter_add d w). 0 < snd kv"
  by (induction d w rule: counter_add.induct) auto

lemma Counter_Nil: "Counter [] = []"
  by (simp add: Counter_def)

lemma Counter_snoc: "Counter (ws @ [w]) = counter_add (Counter ws) w"
  by (simp add: Counter_def)

lemma Counter_keys_set: "set (map fst (Counter ws)) = set ws"
  by (induction ws rule: rev_induct) (auto simp: Counter_Nil Counter_snoc counter_add_keys)

lemma Counter_distinct: "distinct (map fst (Counter ws))"
  by (induction ws rule: rev_induct) (auto simp: Counter_Nil Counter_snoc counter_add_keys)

lemma Counter_sum: "sum_list (map snd (Counter ws)) = length ws"
  by (induction ws rule: rev_induct) (auto simp: Counter_Nil Counter_snoc counter_add_sum)

lemma Counter_pos: "\<forall>kv\<in>set (Counter ws). 0 < snd kv"
proof (induction ws rule: rev_induct)
  case Nil
  show ?case by (simp add: Counter_Nil)
next
  case (snoc w ws)
  show ?case unfolding Counter_snoc by (rule counter_add_pos [OF snoc])
qed

lemma Counter_map_of:
  "map_of (Counter ws) w = (if w \<in> set ws then Some (count_list ws w) else None)"
proof (induction ws rule: rev_induct)
  case Nil
  show ?case by (simp add: Counter_Nil)
next
  case (snoc x ws)
  show ?case
  proof (cases "w = x")
    case True
    have "x \<notin> set ws \<Longrightarrow> count_list ws x = 0" by simp
    with True snoc show ?thesis
      by (auto simp: Counter_snoc counter_add_map_of)
  next
    case False
    with snoc show ?thesis by (simp add: Counter_snoc counter_add_map_of)
  qed
qed

lemma Counter_eq_Nil: "Counter ws = [] \<longleftrightarrow> ws = []"
  using Counter_keys_set [of ws] by (metis list.map_disc_iff set_empty)

lemma Counter_entry: "(w, n) \<in> set (Counter ws) \<longleftrightarrow> w \<in> set ws \<and> n = count_list ws w"
proof -
  have "(w, n) \<in> set (Counter ws) \<longleftrightarrow> map_of (Counter ws) w = Some n"
    using Counter_distinct [of ws] by simp
  then show ?thesis by (auto simp: Counter_map_of)
qed

lemma sum_list_insort_key:
  "sum_list (map g (insort_key f x xs)) = (g x :: nat) + sum_list (map g xs)"
  by (induction xs) auto

lemma sum_list_sort_key: "sum_list (map g (sort_key f xs)) = (sum_list (map g xs) :: nat)"
  by (induction xs) (simp_all add: sum_list_insort_key)

lemma value_counts_set: "set (value_counts xs) = set (Counter xs)"
  by (simp add: value_counts_def)

lemma value_counts_sum: "sum_list (map snd (value_counts xs)) = length xs"
  by (simp add: value_counts_def sum_list_sort_key Counter_sum)

lemma value_counts_entry: "(w, n) \<in> set (value_counts xs) \<longleftrightarrow> w \<in> set xs \<and> n = count_list xs w"
  by (simp add: value_counts_set Counter_entry)

lemma value_counts_distinct: "distinct (map fst (value_counts xs))"
proof -
  have "distinct (Counter xs) \<and> inj_on fst (set (Counter xs))"
    using Counter_distinct [of xs] by (simp add: distinct_map)
  then show ?thesis by (simp add: value_counts_def distinct_map)
qed

lemma dict_get_map_of: "dict_get d k v = (case map_of d k of None \<Rightarrow> v | Some x \<Rightarrow> x)"
  by (induction d k v rule: dict_get.induct) auto

lemma value_counts_get: "dict_get (value_counts xs) w 0 = count_list xs w"
proof (cases "w \<in> set xs")
  case True
  then have "(w, count_list xs w) \<in> set (value_counts xs)" by (simp add: value_counts_entry)
  then have "map_of (value_counts xs) w = Some (count_list xs w)"
    using value_counts_distinct [of xs] by simp
  then show ?thesis by (simp add: dict_get_map_of)
next
  case False
  then have "w \<notin> fst ` set (value_counts xs)"
    by (auto simp: value_counts_entry)
  then have "map_of (value_counts xs) w = None" by (simp add: map_of_eq_None_iff)
  with False show ?thesis by (simp add: dict_get_map_of)
qed

lemma three_labels_count:
  "\<forall>x\<in>set xs. x = a \<or> x = b \<or> x = c \<Longrightarrow> a \<noteq> b \<Longrightarrow> a \<noteq> c \<Longrightarrow> b \<noteq> c \<Longrightarrow>
   count_list xs a + count_list xs b + count_list xs c = length xs"
  by (induction xs) auto

lemma three_labels_filter:
  "\<forall>x\<in>set xs. f x = a \<or> f x = b \<or> f x = c \<Longrightarrow> a \<noteq> b \<Longrightarrow> a \<noteq> c \<Longrightarrow> b \<noteq> c \<Longrightarrow>
   length (filter (\<lambda>x. f x = a) xs) + length (filter (\<lambda>x. f x = b) xs)
     + length (filter (\<lambda>x. f x = c) xs) = length xs"
  by (induction xs) auto

lemma batch_loop_fail:
  "i < length cs \<Longrightarrow> blob (comment_text (cs ! i)) = Inl e \<Longrightarrow>
   \<forall>j<i. \<not> isl (blob (comment_text (cs ! j))) \<Longrightarrow>
   batch_loop ops blob cs acc = Inl e"
proof (induction cs arbitrary: acc i)
  case Nil
  then show ?case by simp
next
  case (Cons c cs)
  show ?case
  proof (cases i)
    case 0
    with Cons.prems show ?thesis by (simp add: analyze_sentiment_def)
  next
    case (Suc k)
    from Cons.prems(3) Suc have "\<not> isl (blob (comment_text c))" by auto
    then obtain p s where ps: "blob (comment_text c) = Inr (p, s)"
      by (cases "blob (comment_text c)") auto
    have "batch_loop ops blob cs acc' = Inl e" for acc'
    proof (rule Cons.IH [of k])
      show "k < length cs" using Cons.prems(1) Suc by simp
      show "blob (comment_text (cs ! k)) = Inl e" using Cons.prems(2) Suc by simp
      show "\<forall>j<k. \<not> isl (blob (comment_text (cs ! j)))"
        using Cons.prems(3) Suc by auto
    qed
    then show ?thesis by (simp add: analyze_sentiment_def ps)
  qed
qed

lemma get_overall_sentiment_ok:
  assumes "rs \<noteq> []"
  shows "\<exists>st. get_overall_sentiment ops (DataFrame True rs) = Inr st
           \<and> sentiment_distribution st = value_counts (map sentiment rs)
           \<and> total_comments st = length rs"
  using assms by (simp add: get_overall_sentiment_def Let_def)

lemma get_provision_wise_sentiment_ok:
  "get_provision_wise_sentiment ops (DataFrame True rs) =
     Inr (map (\<lambda>provision.
                 (provision,
                  \<lparr>count = length (filter (\<lambda>r. provision_reference r = provision) rs),
                   avg_polarity = round_np ops (series_mean ops (map polarity_score
                      (filter (\<lambda>r. provision_reference r = provision) rs))) 3,
                   sentiments = value_counts (map sentiment
                      (filter (\<lambda>r. provision_reference r = provision) rs))\<rparr>))
              (unique (map provision_reference rs)))"
  by (simp add: get_provision_wise_sentiment_def Let_def)

lemma analyze_ok:
  assumes "df \<noteq> []" and "\<forall>c\<in>set df. \<not> isl (blob (comment_text c))"
  shows "\<exists>res st ps. analyze ops blob df = Inr res
           \<and> get_overall_sentiment ops (DataFrame True (map (scored ops blob) df)) = Inr st
           \<and> get_provision_wise_sentiment ops (DataFrame True (map (scored ops blob) df)) = Inr ps
           \<and> summary res = sentiment_summary (sentiment_distribution st)
           \<and> detailed res = DataFrame True (map (scored ops blob) df)
           \<and> by_provision res = ps
           \<and> by_stakeholder res = stakeholder_sentiment (map (scored ops blob) df)
           \<and> overall_stats res = st"
proof -
  let ?rs = "map (scored ops blob) df"
  have rs: "?rs \<noteq> []" using assms(1) by simp
  obtain st where st: "get_overall_sentiment ops (DataFrame True ?rs) = Inr st"
    using get_overall_sentiment_ok [OF rs, of ops] by blast
  show ?thesis
    by (simp add: analyze_def analyze_comments_batch_ok [OF assms] st
        get_provision_wise_sentiment_ok)
qed

lemma dict_set_keys: "fst ` set (dict_set d k v) = insert k (fst ` set d)"
  by (induction d k v rule: dict_set.induct) auto

lemma dict_set_entry: "kv \<in> set (dict_set d k v) \<Longrightarrow> snd kv = v \<or> kv \<in> set d"
  by (induction d k v rule: dict_set.induct) (auto split: if_splits)

lemma summary_fold_keys:
  "fst ` set (foldl (\<lambda>d (key, v). dict_set d (lower key) v) acc xs) =
   fst ` set acc \<union> lower ` fst ` set xs"
proof (induction xs arbitrary: acc)
  case Nil
  show ?case by simp
next
  case (Cons x xs)
  obtain key v where x: "x = (key, v)" by (cases x)
  have "fst ` set (foldl (\<lambda>d (key, v). dict_set d (lower key) v) acc (x # xs)) =
        fst ` set (dict_set acc (lower key) v) \<union> lower ` fst ` set xs"
    by (simp add: x Cons.IH)
  also have "\<dots> = fst ` set acc \<union> lower ` fst ` set (x # xs)"
    by (simp add: dict_set_keys x)
  finally show ?case .
qed

lemma summary_fold_vals:
  "kv \<in> set (foldl (\<lambda>d (key, v). dict_set d (lower key) v) acc xs) \<Longrightarrow>
   snd kv \<in> snd ` set acc \<union> snd ` set xs"
proof (induction xs arbitrary: acc)
  case Nil
  then show ?case by auto
next
  case (Cons x xs)
  obtain key v where x: "x = (key, v)" by (cases x)
  from Cons.prems have "kv \<in> set (foldl (\<lambda>d (key, v). dict_set d (lower key) v) (dict_set acc (lower key) v) xs)"
    by (simp add: x)
  from Cons.IH [OF this] have "snd kv \<in> snd ` set (dict_set acc (lower key) v) \<union> snd ` set xs" .
  moreover have "snd ` set (dict_set acc (lower key) v) \<subseteq> insert v (snd ` set acc)"
    using dict_set_entry [of _ acc "lower key" v] by auto
  ultimately show ?case by (auto simp: x)
qed

lemma sentiment_summary_keys: "fst ` set (sentiment_summary d) = lower ` fst ` set d"
  by (simp add: sentiment_summary_def summary_fold_keys)

lemma sentiment_summary_vals: "kv \<in> set (sentiment_summary d) \<Longrightarrow> snd kv \<in> snd ` set d"
  using summary_fold_vals [of kv "[]" d] by (simp add: sentiment_summary_def)

lemma dict_get_zero_iff:
  assumes "\<forall>kv\<in>set d. 0 < snd kv"
  shows "dict_get d k (0::nat) = 0 \<longleftrightarrow> k \<notin> fst ` set d"
proof (cases "map_of d k")
  case None
  then have "k \<notin> fst ` set d" by (simp add: map_of_eq_None_iff)
  with None show ?thesis by (simp add: dict_get_map_of)
next
  case (Some v)
  then have "(k, v) \<in> set d" by (rule map_of_SomeD)
  with assms have "0 < v" "k \<in> fst ` set d" by force+
  with Some show ?thesis by (simp add: dict_get_map_of)
qed

lemma value_counts_pos: "\<forall>kv\<in>set (value_counts xs). 0 < snd kv"
  using Counter_pos [of xs] by (simp add: value_counts_set)

lemma value_counts_keys: "fst ` set (value_counts xs) = set xs"
  using Counter_keys_set [of xs] by (simp add: value_counts_set)

lemma unique_set: "set (unique xs) = set xs"
  using Counter_keys_set [of xs] by (simp add: unique_def)

text \<open>Substring test.\<close>

lemma contains_iff: "contains sub s \<longleftrightarrow> (\<exists>pre suf. s = pre @ sub @ suf)"
proof (induction s)
  case Nil
  show ?case by auto
next
  case (Cons c cs)
  show ?case
  proof
    assume "contains sub (c # cs)"
    then consider "prefix sub (c # cs)" | "contains sub cs" by auto
    then show "\<exists>pre suf. c # cs = pre @ sub @ suf"
    proof cases
      case 1
      then obtain suf where "c # cs = sub @ suf" by (auto simp: prefix_def)
      then have "c # cs = [] @ sub @ suf" by simp
      then show ?thesis by blast
    next
      case 2
      with Cons.IH obtain pre suf where "cs = pre @ sub @ suf" by blast
      then have "c # cs = (c # pre) @ sub @ suf" by simp
      then show ?thesis by blast
    qed
  next
    assume "\<exists>pre suf. c # cs = pre @ sub @ suf"
    then obtain pre suf where eq: "c # cs = pre @ sub @ suf" by blast
    show "contains sub (c # cs)"
    proof (cases pre)
      case Nil
      with eq have "prefix sub (c # cs)" by (simp add: prefix_def)
      then show ?thesis by simp
    next
      case (Cons p ps)
      with eq have "cs = ps @ sub @ suf" by simp
      with Cons.IH have "contains sub cs" by blast
      then show ?thesis by simp
    qed
  qed
qed

text \<open>A stable sort refines an existing order among equal keys.\<close>

lemma insort_key_lex:
  fixes f :: "'a \<Rightarrow> 'k::linorder"
  assumes "sorted_wrt (\<lambda>a b. f a < f b \<or> (f a = f b \<and> R a b)) ys" and "\<forall>y\<in>set ys. R x y"
  shows "sorted_wrt (\<lambda>a b. f a < f b \<or> (f a = f b \<and> R a b)) (insort_key f x ys)"
  using assms
proof (induction ys)
  case Nil
  show ?case by simp
next
  case (Cons y ys)
  show ?case
  proof (cases "f x \<le> f y")
    case True
    have "f x < f z \<or> (f x = f z \<and> R x z)" if "z \<in> set (y # ys)" for z
    proof -
      have "f y \<le> f z" using that Cons.prems(1) by auto
      with True have "f x \<le> f z" by simp
      moreover have "R x z" using that Cons.prems(2) by auto
      ultimately show ?thesis by auto
    qed
    with True Cons.prems(1) show ?thesis by simp
  next
    case False
    have "sorted_wrt (\<lambda>a b. f a < f b \<or> (f a = f b \<and> R a b)) (insort_key f x ys)"
      using Cons.prems by (intro Cons.IH) auto
    moreover have "f y < f z \<or> (f y = f z \<and> R y z)" if "z \<in> set (insort_key f x ys)" for z
      using that False Cons.prems(1) by (auto simp: set_insort_key)
    ultimately show ?thesis using False by simp
  qed
qed

lemma sort_key_lex:
  fixes f :: "'a \<Rightarrow> 'k::linorder"
  assumes "sorted_wrt R xs"
  shows "sorted_wrt (\<lambda>a b. f a < f b \<or> (f a = f b \<and> R a b)) (sort_key f xs)"
  using assms
proof (induction xs)
  case Nil
  show ?case by simp
next
  case (Cons x xs)
  have "sorted_wrt (\<lambda>a b. f a < f b \<or> (f a = f b \<and> R a b)) (insort_key f x (sort_key f xs))"
    using Cons by (intro insort_key_lex) auto
  then show ?case by simp
qed

text \<open>A counter lists its keys in the order in which they were first met.\<close>

lemma first_pos_less: "a \<in> set ws \<Longrightarrow> first_pos ws a < length ws"
  by (induction ws) (auto simp: first_pos_def)

lemma first_pos_append_in: "a \<in> set ws \<Longrightarrow> first_pos (ws @ vs) a = first_pos ws a"
  by (simp add: first_pos_def takeWhile_append1 [of a])

lemma first_pos_append_new: "w \<notin> set ws \<Longrightarrow> first_pos (ws @ [w]) w = length ws"
proof -
  assume "w \<notin> set ws"
  then have "takeWhile (\<lambda>x. x \<noteq> w) (ws @ [w]) = ws @ takeWhile (\<lambda>x. x \<noteq> w) [w]"
    by (intro takeWhile_append2) auto
  then show ?thesis by (simp add: first_pos_def)
qed

lemma Counter_keys_order:
  "sorted_wrt (\<lambda>a b. first_pos ws a < first_pos ws b) (map fst (Counter ws))"
proof (induction ws rule: rev_induct)
  case Nil
  show ?case by (simp add: Counter_Nil)
next
  case (snoc w ws)
  have keys: "set (map fst (Counter ws)) = set ws" by (rule Counter_keys_set)
  have old: "sorted_wrt (\<lambda>a b. first_pos (ws @ [w]) a < first_pos (ws @ [w]) b) (map fst (Counter ws))"
    using snoc
  proof (rule sorted_wrt_mono_rel [rotated])
    fix a b assume "a \<in> set (map fst (Counter ws))" "b \<in> set (map fst (Counter ws))"
      and "first_pos ws a < first_pos ws b"
    then show "first_pos (ws @ [w]) a < first_pos (ws @ [w]) b"
      using keys by (simp add: first_pos_append_in)
  qed
  show ?case
  proof (cases "w \<in> set ws")
    case True
    with old keys show ?thesis by (simp add: Counter_snoc counter_add_keys)
  next
    case False
    have "first_pos (ws @ [w]) a < first_pos (ws @ [w]) w" if "a \<in> set ws" for a
      using that False by (simp add: first_pos_append_in first_pos_append_new first_pos_less)
    with old keys False show ?thesis
      by (simp add: Counter_snoc counter_add_keys sorted_wrt_append)
  qed
qed

lemma most_common_sorted:
  "sorted_wrt (\<lambda>a b. snd a > snd b \<or> (snd a = snd b \<and> first_pos ws (fst a) < first_pos ws (fst b)))
     (most_common n (Counter ws))"
proof -
  have "sorted_wrt (\<lambda>a b. first_pos ws (fst a) < first_pos ws (fst b)) (Counter ws)"
    using Counter_keys_order [of ws] by (simp add: sorted_wrt_map)
  then have "sorted_wrt (\<lambda>a b. - int (snd a) < - int (snd b) \<or>
               (- int (snd a) = - int (snd b) \<and> first_pos ws (fst a) < first_pos ws (fst b)))
             (sort_key (\<lambda>kv. - int (snd kv)) (Counter ws))"
    by (rule sort_key_lex)
  then have "sorted_wrt (\<lambda>a b. snd a > snd b \<or> (snd a = snd b \<and> first_pos ws (fst a) < first_pos ws (fst b)))
             (sort_key (\<lambda>kv. - int (snd kv)) (Counter ws))"
    by (rule sorted_wrt_mono_rel [rotated]) auto
  then show ?thesis
    unfolding most_common_def by (rule sorted_wrt_take)
qed

lemma most_common_subset: "set (most_common n d) \<subseteq> set d"
  unfolding most_common_def using set_take_subset [of "nat n" "sort_key (\<lambda>kv. - int (snd kv)) d"]
  by simp

lemma most_common_length: "length (most_common n d) \<le> nat n"
  by (simp add: most_common_def)

lemma count_list_filter: "P w \<Longrightarrow> count_list (filter P xs) w = count_list xs w"
  by (induction xs) auto

text \<open>Word frequencies.\<close>

lemma Counter_counts: "snd ` set (Counter ws) = count_list ws ` set ws"
proof (intro set_eqI iffI)
  fix n assume "n \<in> snd ` set (Counter ws)"
  then obtain w where "(w, n) \<in> set (Counter ws)" by auto
  then show "n \<in> count_list ws ` set ws" by (auto simp: Counter_entry)
next
  fix n assume "n \<in> count_list ws ` set ws"
  then obtain w where "w \<in> set ws" "n = count_list ws w" by auto
  then have "(w, n) \<in> set (Counter ws)" by (simp add: Counter_entry)
  then show "n \<in> snd ` set (Counter ws)" by force
qed

lemma split_all_space: "\<forall>c\<in>set s. isspace c \<Longrightarrow> split s = []"
proof -
  assume "\<forall>c\<in>set s. isspace c"
  then have h: "dropWhile isspace s = []" by simp
  show ?thesis by (subst split.simps) (simp only: h list.case)
qed

lemma lower_char_space: "isspace c \<Longrightarrow> lower_char c = c"
  by (auto simp: isspace_def lower_char_def Let_def)

lemma frequency_words_space: "\<forall>c\<in>set text. isspace c \<Longrightarrow> frequency_words text = []"
proof -
  assume a: "\<forall>c\<in>set text. isspace c"
  then have "\<forall>c\<in>set (re_sub_nonalpha (lower text)). isspace c"
    by (auto simp: re_sub_nonalpha_def lower_def lower_char_space)
  then show ?thesis by (simp add: frequency_words_def split_all_space)
qed

lemma get_word_frequency_eq:
  assumes "frequency_words text \<noteq> []"
  shows "get_word_frequency text =
     map (\<lambda>(word, c). (word, real c /
            real (Max (count_list (frequency_words text) ` set (frequency_words text)))))
         (Counter (frequency_words text))"
  using assms
  by (simp add: get_word_frequency_def Let_def Counter_eq_Nil Counter_counts)

lemma get_word_frequency_entry:
  assumes "frequency_words text \<noteq> []"
  shows "(w, x) \<in> set (get_word_frequency text) \<longleftrightarrow>
     w \<in> set (frequency_words text) \<and>
     x = real (count_list (frequency_words text) w) /
         real (Max (count_list (frequency_words text) ` set (frequency_words text)))"
  unfolding get_word_frequency_eq [OF assms]
  by (auto simp: Counter_entry image_iff split: prod.splits)

lemma get_word_frequency_keys: "map fst (get_word_frequency text) = map fst (Counter (frequency_words text))"
  by (simp add: get_word_frequency_def Let_def split_def comp_def)

text \<open>Splitting into words, and joining words again.\<close>

lemma split_Nil: "split [] = []"
  by (subst split.simps) simp

lemma split_space_cons: "isspace c \<Longrightarrow> split (c # s) = split s"
proof -
  assume c: "isspace c"
  have "split (c # s) =
      (case dropWhile isspace s of [] \<Rightarrow> []
       | d # ds \<Rightarrow> takeWhile (\<lambda>x. \<not> isspace x) (d # ds) # split (dropWhile (\<lambda>x. \<not> isspace x) (d # ds)))"
    by (subst split.simps) (simp add: c)
  also have "\<dots> = split s"
    by (rule split.simps [symmetric])
  finally show ?thesis .
qed

lemma split_word_then:
  assumes "w \<noteq> []" and "\<forall>c\<in>set w. \<not> isspace c" and "rest = [] \<or> isspace (hd rest)"
  shows "split (w @ rest) = w # split rest"
proof -
  obtain a w' where w: "w = a # w'" using assms(1) by (cases w) auto
  have a: "\<not> isspace a" using assms(2) w by simp
  have d: "dropWhile isspace (w @ rest) = a # (w' @ rest)"
    using a w by simp
  have r: "takeWhile (\<lambda>x. \<not> isspace x) rest = [] \<and> dropWhile (\<lambda>x. \<not> isspace x) rest = rest"
    using assms(3) by (cases rest) auto
  have t: "takeWhile (\<lambda>x. \<not> isspace x) (a # (w' @ rest)) = w"
  proof -
    have "takeWhile (\<lambda>x. \<not> isspace x) (w @ rest) = w @ takeWhile (\<lambda>x. \<not> isspace x) rest"
      using assms(2) by (intro takeWhile_append2) auto
    with r w show ?thesis by simp
  qed
  have dr: "dropWhile (\<lambda>x. \<not> isspace x) (a # (w' @ rest)) = rest"
  proof -
    have "dropWhile (\<lambda>x. \<not> isspace x) (w @ rest) = dropWhile (\<lambda>x. \<not> isspace x) rest"
      using assms(2) by (intro dropWhile_append2) auto
    with r w show ?thesis by simp
  qed
  show ?thesis
    by (subst split.simps) (simp only: d list.case t dr)
qed

lemma split_props: "w \<in> set (split s) \<Longrightarrow> w \<noteq> [] \<and> (\<forall>c\<in>set w. \<not> isspace c)"
proof (induction s rule: split.induct)
  case (1 s)
  show ?case
  proof (cases "dropWhile isspace s")
    case Nil
    then have "\<forall>c\<in>set s. isspace c" by simp
    then have "split s = []" by (rule split_all_space)
    with "1.prems" show ?thesis by simp
  next
    case (Cons c cs)
    have nc: "\<not> isspace c" using Cons hd_dropWhile [of isspace s] by auto
    have eq: "split s = takeWhile (\<lambda>x. \<not> isspace x) (c # cs) # split (dropWhile (\<lambda>x. \<not> isspace x) (c # cs))"
      by (subst split.simps) (simp only: Cons list.case)
    from "1.prems" eq consider "w = takeWhile (\<lambda>x. \<not> isspace x) (c # cs)"
      | "w \<in> set (split (dropWhile (\<lambda>x. \<not> isspace x) (c # cs)))" by auto
    then show ?thesis
    proof cases
      case 1
      then show ?thesis using nc by (auto dest: set_takeWhileD)
    next
      case 2
      then show ?thesis by (rule "1.IH" [OF Cons])
    qed
  qed
qed

lemma split_join_suffix_length:
  assumes "\<forall>w\<in>set ws. w \<noteq> [] \<and> (\<forall>c\<in>set w. \<not> isspace c)"
    and "sfx \<noteq> []" and "\<forall>c\<in>set sfx. \<not> isspace c"
  shows "length (split (join '' '' ws @ sfx)) = max 1 (length ws)"
  using assms(1)
proof (induction "'' ''" ws rule: join.induct)
  case 1
  have "split (sfx @ []) = sfx # split []"
    using assms(2,3) by (intro split_word_then) auto
  then show ?case by (simp add: split_Nil)
next
  case (2 x)
  have "split ((x @ sfx) @ []) = (x @ sfx) # split []"
    using assms(2,3) 2 by (intro split_word_then) auto
  then show ?case by (simp add: split_Nil)
next
  case (3 x y ys)
  have sp: "isspace CHR '' ''" by (simp add: isspace_def)
  have "split (x @ (CHR '' '' # (join '' '' (y # ys) @ sfx))) =
        x # split (CHR '' '' # (join '' '' (y # ys) @ sfx))"
    using 3(2) sp by (intro split_word_then) auto
  also have "split (CHR '' '' # (join '' '' (y # ys) @ sfx)) = split (join '' '' (y # ys) @ sfx)"
    using sp by (rule split_space_cons)
  finally have "length (split (join '' '' (x # y # ys) @ sfx)) =
      Suc (length (split (join '' '' (y # ys) @ sfx)))" by simp
  moreover have "length (split (join '' '' (y # ys) @ sfx)) = max 1 (length (y # ys))"
    using 3 by simp
  ultimately show ?case by simp
qed

lemma truncate_bound:
  assumes "0 \<le> n"
  shows "int (length (split (join '' '' (slice_to n (split s)) @ ''...''))) \<le> n + 1"
proof -
  have sl: "slice_to n (split s) = take (nat n) (split s)"
    using assms by (simp add: slice_to_def)
  have "\<forall>w\<in>set (slice_to n (split s)). w \<noteq> [] \<and> (\<forall>c\<in>set w. \<not> isspace c)"
    unfolding sl using split_props [of _ s] by (auto dest: in_set_takeD)
  moreover have "\<forall>c\<in>set ''...''. \<not> isspace c" by (simp add: isspace_def)
  ultimately have "length (split (join '' '' (slice_to n (split s)) @ ''...'')) =
      max 1 (length (slice_to n (split s)))"
    by (intro split_join_suffix_length) auto
  moreover have "length (slice_to n (split s)) \<le> nat n"
    unfolding sl by simp
  ultimately show ?thesis using assms by linarith
qed

text \<open>Groups by provision and by stakeholder.\<close>

lemma count_list_map: "count_list (map f xs) l = length (filter (\<lambda>x. f x = l) xs)"
  by (induction xs) auto

lemma value_counts_get_map:
  "dict_get (value_counts (map f xs)) l 0 = length (filter (\<lambda>x. f x = l) xs)"
  by (simp add: value_counts_get count_list_map)

lemma provision_stats_ok:
  assumes "get_provision_wise_sentiment ops (DataFrame True rs) = Inr ps"
  shows "fst ` set ps = provision_reference ` set rs"
    and "\<forall>(p, st)\<in>set ps.
           count st = length (filter (\<lambda>r. provision_reference r = p) rs)
           \<and> (\<forall>l. dict_get (sentiments st) l 0 =
                  length (filter (\<lambda>r. provision_reference r = p \<and> sentiment r = l) rs))
           \<and> sum_list (map snd (sentiments st)) = count st"
proof -
  from assms have ps: "ps = map (\<lambda>provision.
                 (provision,
                  \<lparr>count = length (filter (\<lambda>r. provision_reference r = provision) rs),
                   avg_polarity = round_np ops (series_mean ops (map polarity_score
                      (filter (\<lambda>r. provision_reference r = provision) rs))) 3,
                   sentiments = value_counts (map sentiment
                      (filter (\<lambda>r. provision_reference r = provision) rs))\<rparr>))
              (unique (map provision_reference rs))"
    by (simp add: get_provision_wise_sentiment_ok)
  show "fst ` set ps = provision_reference ` set rs"
    unfolding ps by (simp add: image_image unique_set)
  show "\<forall>(p, st)\<in>set ps.
           count st = length (filter (\<lambda>r. provision_reference r = p) rs)
           \<and> (\<forall>l. dict_get (sentiments st) l 0 =
                  length (filter (\<lambda>r. provision_reference r = p \<and> sentiment r = l) rs))
           \<and> sum_list (map snd (sentiments st)) = count st"
    unfolding ps by (auto simp: value_counts_get_map value_counts_sum)
qed

lemma stakeholder_sentiment_ok:
  "fst ` set (stakeholder_sentiment rs) = stakeholder_name ` set rs"
  "\<forall>(s, c)\<in>set (stakeholder_sentiment rs).
      total_c c = length (filter (\<lambda>r. stakeholder_name r = s) rs)
      \<and> positive c = length (filter (\<lambda>r. stakeholder_name r = s \<and> sentiment r = ''Positive'') rs)
      \<and> negative c = length (filter (\<lambda>r. stakeholder_name r = s \<and> sentiment r = ''Negative'') rs)
      \<and> neutral c = length (filter (\<lambda>r. stakeholder_name r = s \<and> sentiment r = ''Neutral'') rs)"
  by (auto simp: stakeholder_sentiment_def Let_def image_image unique_set)

text \<open>The grouping loop of \<open>create_stakeholder_summary\<close>.\<close>

lemma dict_append_keys: "map fst (dict_append groups key row) = map fst groups"
  by (induction groups) (auto simp: dict_append_def)

lemma dict_append_get_other:
  "k \<noteq> key \<Longrightarrow> dict_get (dict_append groups key row) k d = dict_get groups k d"
  by (induction groups) (auto simp: dict_append_def)

lemma dict_append_get_key:
  "key \<in> fst ` set groups \<Longrightarrow>
   dict_get (dict_append groups key row) key [] = dict_get groups key [] @ [row]"
proof (induction groups)
  case Nil
  then show ?case by simp
next
  case (Cons kv groups)
  obtain a b where kv: "kv = (a, b)" by (cases kv)
  show ?case
  proof (cases "a = key")
    case True
    then show ?thesis by (simp add: kv dict_append_def)
  next
    case False
    with Cons.prems kv have "key \<in> fst ` set groups" by auto
    from Cons.IH [OF this] False show ?thesis
      by (simp add: kv dict_append_def)
  qed
qed

lemma find_filter: "find P xs = (case filter P xs of [] \<Rightarrow> None | x # _ \<Rightarrow> Some x)"
  by (induction xs) auto

lemma stakeholder_group_cases:
  "stakeholder_group name \<in> {''Legal'', ''Business'', ''Government'', ''Association'', ''Individual''}"
  by (simp add: stakeholder_group_def)

lemma group_loop_ok:
  assumes "has_columns sdf"
    and "\<forall>c\<in>set cs. \<exists>r\<in>set (rows sdf). comment_id r = comment_id c"
    and "{''Legal'', ''Business'', ''Government'', ''Association'', ''Individual''} \<subseteq> fst ` set groups"
  shows "\<exists>groups'. group_loop cs sdf groups = Inr groups'
           \<and> map fst groups' = map fst groups
           \<and> (\<forall>g. map Some (dict_get groups' g []) =
                  map Some (dict_get groups g []) @
                  map (\<lambda>c. find (\<lambda>r. comment_id r = comment_id c) (rows sdf))
                    (filter (\<lambda>c. stakeholder_group (lower (stakeholder_name c)) = g) cs))"
  using assms(2,3)
proof (induction cs arbitrary: groups)
  case Nil
  show ?case by simp
next
  case (Cons c cs)
  let ?key = "stakeholder_group (lower (stakeholder_name c))"
  from Cons.prems(1) obtain r rest where flt: "filter (\<lambda>r. comment_id r = comment_id c) (rows sdf) = r # rest"
    by (cases "filter (\<lambda>r. comment_id r = comment_id c) (rows sdf)") (auto simp: filter_empty_conv)
  then have fnd: "find (\<lambda>r. comment_id r = comment_id c) (rows sdf) = Some r"
    by (simp add: find_filter)
  let ?groups1 = "dict_append groups ?key r"
  have step: "group_loop (c # cs) sdf groups = group_loop cs sdf ?groups1"
    using assms(1) flt by (simp add: Let_def)
  have keys1: "map fst ?groups1 = map fst groups" by (rule dict_append_keys)
  then have "fst ` set ?groups1 = fst ` set groups" by (metis set_map)
  with Cons.prems(2) have sub1: "{''Legal'', ''Business'', ''Government'', ''Association'', ''Individual''}
      \<subseteq> fst ` set ?groups1" by simp
  have "\<forall>c\<in>set cs. \<exists>r\<in>set (rows sdf). comment_id r = comment_id c"
    using Cons.prems(1) by simp
  from Cons.IH [OF this sub1] obtain groups' where
    g1: "group_loop cs sdf ?groups1 = Inr groups'"
    and g2: "map fst groups' = map fst ?groups1"
    and g3: "\<forall>g. map Some (dict_get groups' g []) =
                  map Some (dict_get ?groups1 g []) @
                  map (\<lambda>c. find (\<lambda>r. comment_id r = comment_id c) (rows sdf))
                    (filter (\<lambda>c. stakeholder_group (lower (stakeholder_name c)) = g) cs)"
    by blast
  have key_in: "?key \<in> fst ` set groups"
    using Cons.prems(2) stakeholder_group_cases [of "lower (stakeholder_name c)"] by blast
  have "map Some (dict_get groups' g []) =
                  map Some (dict_get groups g []) @
                  map (\<lambda>c. find (\<lambda>r. comment_id r = comment_id c) (rows sdf))
                    (filter (\<lambda>c. stakeholder_group (lower (stakeholder_name c)) = g) (c # cs))" for g
  proof (cases "g = ?key")
    case True
    then show ?thesis
      using g3 key_in fnd by (simp add: dict_append_get_key)
  next
    case False
    then have "dict_get ?groups1 g [] = dict_get groups g []"
      by (intro dict_append_get_other) simp
    with False g3 show ?thesis by simp
  qed
  with step g1 g2 keys1 show ?case by simp
qed


lemma dict_get_distinct:
  "distinct (map fst d) \<Longrightarrow> (k, v) \<in> set d \<Longrightarrow> dict_get d k dflt = v"
  by (simp add: dict_get_map_of)

lemma stakeholder_summary_ok:
  assumes "has_columns sdf"
    and "\<forall>c\<in>set cs. \<exists>r\<in>set (rows sdf). comment_id r = comment_id c"
  shows "\<exists>groups summ. group_loop cs sdf stakeholder_groups_init = Inr groups
       \<and> create_stakeholder_summary ops cs sdf = Inr summ
       \<and> map fst groups = [''Business'', ''Legal'', ''Government'', ''Individual'', ''Association'']
       \<and> (\<forall>g. map Some (dict_get groups g []) =
              map (\<lambda>c. find (\<lambda>r. comment_id r = comment_id c) (rows sdf))
                (filter (\<lambda>c. stakeholder_group (lower (stakeholder_name c)) = g) cs))
       \<and> (\<forall>g. g \<in> fst ` set summ \<longleftrightarrow>
              (\<exists>c\<in>set cs. stakeholder_group (lower (stakeholder_name c)) = g))
       \<and> (\<forall>(g, st)\<in>set summ. group_count st =
              length (filter (\<lambda>c. stakeholder_group (lower (stakeholder_name c)) = g) cs))"
proof -
  let ?b = "\<lambda>c. stakeholder_group (lower (stakeholder_name c))"
  let ?F = "\<lambda>(group, comments).
              (group,
               \<lparr>group_count = length comments,
                group_distribution = value_counts (map sentiment comments),
                group_average_polarity =
                  round_np ops (series_mean ops (map polarity_score comments)) 3\<rparr>)"
  have init: "{''Legal'', ''Business'', ''Government'', ''Association'', ''Individual''}
      \<subseteq> fst ` set stakeholder_groups_init"
    by (simp add: stakeholder_groups_init_def)
  have init_get: "dict_get stakeholder_groups_init g [] = []" for g
    by (simp add: stakeholder_groups_init_def)
  from group_loop_ok [OF assms init] obtain groups where
    g1: "group_loop cs sdf stakeholder_groups_init = Inr groups"
    and g2: "map fst groups = map fst stakeholder_groups_init"
    and g3: "\<forall>g. map Some (dict_get groups g []) =
              map (\<lambda>c. find (\<lambda>r. comment_id r = comment_id c) (rows sdf)) (filter (\<lambda>c. ?b c = g) cs)"
    by (auto simp: init_get)
  have keys: "map fst groups = [''Business'', ''Legal'', ''Government'', ''Individual'', ''Association'']"
    using g2 by (simp add: stakeholder_groups_init_def)
  have dist: "distinct (map fst groups)" unfolding keys by simp
  have len: "length (dict_get groups g []) = length (filter (\<lambda>c. ?b c = g) cs)" for g
  proof -
    have "length (map Some (dict_get groups g [])) = length (filter (\<lambda>c. ?b c = g) cs)"
      using g3 by simp
    then show ?thesis by simp
  qed
  let ?summ = "map ?F (filter (\<lambda>(group, comments). comments \<noteq> []) groups)"
  have summ: "create_stakeholder_summary ops cs sdf = Inr ?summ"
    by (simp add: create_stakeholder_summary_def g1)
  have entry: "length cm = length (filter (\<lambda>c. ?b c = g) cs)" if "(g, cm) \<in> set groups" for g cm
    using len [of g] dict_get_distinct [OF dist that, of "[]"] by simp
  have a: "g \<in> fst ` set ?summ \<longleftrightarrow> (\<exists>c\<in>set cs. ?b c = g)" for g
  proof
    assume "g \<in> fst ` set ?summ"
    then obtain cm where cm: "(g, cm) \<in> set groups" "cm \<noteq> []" by (auto split: prod.splits)
    with entry [OF cm(1)] have "filter (\<lambda>c. ?b c = g) cs \<noteq> []" by auto
    then show "\<exists>c\<in>set cs. ?b c = g" by (auto simp: filter_empty_conv)
  next
    assume "\<exists>c\<in>set cs. ?b c = g"
    then obtain c where c: "c \<in> set cs" "?b c = g" by blast
    then have ne: "filter (\<lambda>c. ?b c = g) cs \<noteq> []" by (auto simp: filter_empty_conv)
    have "g \<in> set (map fst groups)"
      unfolding keys using stakeholder_group_cases [of "lower (stakeholder_name c)"] c(2) by auto
    then obtain cm where cm: "(g, cm) \<in> set groups" by auto
    with entry [OF cm] ne have "cm \<noteq> []" by auto
    with cm have "(g, cm) \<in> set (filter (\<lambda>(group, comments). comments \<noteq> []) groups)" by simp
    then have "fst (?F (g, cm)) \<in> fst ` set ?summ" by (intro imageI) (simp only: set_map, rule imageI)
    then show "g \<in> fst ` set ?summ" by simp
  qed
  have b: "\<forall>(g, st)\<in>set ?summ. group_count st = length (filter (\<lambda>c. ?b c = g) cs)"
  proof (intro ballI, clarify)
    fix g st assume "(g, st) \<in> set ?summ"
    then obtain cm where "(g, cm) \<in> set groups" "group_count st = length cm"
      by (auto split: prod.splits)
    with entry show "group_count st = length (filter (\<lambda>c. ?b c = g) cs)" by simp
  qed
  have a': "\<forall>g. g \<in> fst ` set ?summ \<longleftrightarrow> (\<exists>c\<in>set cs. ?b c = g)" using a by blast
  show ?thesis
    apply (rule exI [of _ groups], rule exI [of _ ?summ])
    apply (intro conjI)
    apply (rule g1)
    apply (rule summ)
    apply (rule keys)
    apply (rule g3)
    apply (rule a')
    apply (rule b)
    done
qed

section \<open>Theorems\<close>

text \<open>
  C1. Whenever the external capability returns polarity \<open>p\<close> for a text,
  \<open>analyze_sentiment\<close> returns that polarity with the label \<open>'Positive'\<close> exactly when
  \<open>p > 0.1\<close>, \<open>'Negative'\<close> exactly when \<open>p < -0.1\<close>, and \<open>'Neutral'\<close> exactly in the
  remaining case; the two boundary values \<open>0.1\<close> and \<open>-0.1\<close> are \<open>'Neutral'\<close>.
\<close>

theorem analyze_sentiment_thresholds:
  assumes "blob text = Inr (p, s)"
  shows "\<exists>a. analyze_sentiment blob text = Inr a \<and> polarity a = p \<and> subjectivity a = s
           \<and> (label a = ''Positive'' \<longleftrightarrow> p > 0.1)
           \<and> (label a = ''Negative'' \<longleftrightarrow> p < - 0.1)
           \<and> (label a = ''Neutral'' \<longleftrightarrow> \<not> p > 0.1 \<and> \<not> p < - 0.1)
           \<and> (p = 0.1 \<or> p = - 0.1 \<longrightarrow> label a = ''Neutral'')"
  using assms by (auto simp: analyze_sentiment_def)

theorem analyze_sentiment_thresholds_witness:
  "(\<lambda>t. Inr (0.1, 0.5)) ''fine'' = (Inr (0.1, 0.5) :: py_error + real \<times> real)
   \<and> (\<exists>a. analyze_sentiment (\<lambda>t. Inr (0.1, 0.5)) ''fine'' = Inr a \<and> label a = ''Neutral'')"
  using analyze_sentiment_thresholds [of "\<lambda>t. Inr (0.1, 0.5)" "''fine''" "0.1" "0.5"]
  by auto

text \<open>
  C2 (as the code has it). On a frame with no rows \<open>get_overall_sentiment\<close> returns no result:
  it raises \<open>ZeroDivisionError\<close> from the unguarded \<open>count / len\<close> when the frame has its
  columns, and \<open>KeyError\<close> when it has none, as the frame built by \<open>analyze_comments_batch\<close>
  from zero comments; so \<open>analyze\<close> on the empty batch raises \<open>KeyError\<close>. No
  \<open>EmptyInputError\<close> is raised.
\<close>

theorem get_overall_sentiment_empty:
  "get_overall_sentiment ops (DataFrame c []) = Inl (if c then ZeroDivisionError else KeyError ''sentiment'')
   \<and> get_overall_sentiment ops (DataFrame c []) \<noteq> Inl EmptyInputError
   \<and> analyze ops blob [] = Inl (KeyError ''sentiment'')"
  by (simp add: get_overall_sentiment_def analyze_def analyze_comments_batch_def pd_DataFrame_def)

text \<open>
  C2 as stated fails: on the empty frame with columns the error is the numeric
  \<open>ZeroDivisionError\<close>.
\<close>

theorem get_overall_sentiment_empty_counterexample:
  "get_overall_sentiment exact_ops (DataFrame True []) = Inl ZeroDivisionError"
  by (simp add: get_overall_sentiment_def)

text \<open>
  C3 (as the code has it). If the external capability fails on the text of a record and on
  none before it, \<open>analyze_comments_batch\<close> raises that failure: the batch is aborted and no
  record of it is returned.
\<close>

theorem analyze_comments_batch_aborts:
  assumes "i < length df" and "blob (comment_text (df ! i)) = Inl e"
    and "\<forall>j<i. \<not> isl (blob (comment_text (df ! j)))"
  shows "analyze_comments_batch ops blob df = Inl e"
  using batch_loop_fail [OF assms] by (simp add: analyze_comments_batch_def)

theorem analyze_comments_batch_aborts_witness:
  "(1::nat) < length failing_batch
   \<and> blob_stub (comment_text (failing_batch ! 1)) = Inl (TextBlobError ''bad'')
   \<and> \<not> isl (blob_stub (comment_text (failing_batch ! 0)))
   \<and> analyze_comments_batch exact_ops blob_stub failing_batch = Inl (TextBlobError ''bad'')"
proof -
  have 1: "(1::nat) < length failing_batch"
    by (simp add: failing_batch_def)
  have 2: "blob_stub (comment_text (failing_batch ! 1)) = Inl (TextBlobError ''bad'')"
    by (simp add: failing_batch_def mk_comment_def blob_stub_def)
  have 3: "\<forall>j<1. \<not> isl (blob_stub (comment_text (failing_batch ! j)))"
    by (simp add: failing_batch_def mk_comment_def blob_stub_def)
  show ?thesis
    using 1 2 3 analyze_comments_batch_aborts [OF 1 2 3] by simp
qed

text \<open>
  C3 as stated fails: with the capability failing on the second of three records, the batch
  returns the failure, not three rows with a neutral one in the middle.
\<close>

theorem analyze_comments_batch_substitutes_counterexample:
  "analyze_comments_batch exact_ops blob_stub
     [mk_comment 1 ''Ann'' ''good'' ''S1'', mk_comment 2 ''Bob'' ''bad'' ''S1'',
      mk_comment 3 ''Cy'' ''poor'' ''S2'']
   = Inl (TextBlobError ''bad'')"
  by code_simp

text \<open>
  C4 (as the code has it). For every non-empty batch on which the external capability
  succeeds, whatever the float operations return: the batch is scored, each record's
  \<open>polarity_score\<close> being its polarity rounded to 3 decimal places;
  \<open>get_overall_sentiment\<close> succeeds on the result; and the \<open>average_polarity\<close> it reports
  is \<open>round(m, 3)\<close>, where \<open>m\<close> is the mean of these already rounded per-record values. It
  is the rounded mean, not the mean.
\<close>

theorem average_polarity_of_rounded:
  assumes "cs \<noteq> []" and "\<forall>c\<in>set cs. \<not> isl (blob (comment_text c))"
  shows "\<exists>df st. analyze_comments_batch ops blob cs = Inr df \<and> get_overall_sentiment ops df = Inr st
           \<and> map polarity_score (rows df) =
               map (\<lambda>c. round_float ops (fst (projr (blob (comment_text c)))) 3) cs
           \<and> average_polarity st =
               round_np ops (series_mean ops
                 (map (\<lambda>c. round_float ops (fst (projr (blob (comment_text c)))) 3) cs)) 3"
proof -
  let ?df = "DataFrame True (map (scored ops blob) cs)"
  have "get_overall_sentiment ops ?df = Inr (projr (get_overall_sentiment ops ?df))"
    using assms(1) by (simp add: get_overall_sentiment_def Let_def)
  moreover have "average_polarity (projr (get_overall_sentiment ops ?df)) =
      round_np ops (series_mean ops (map polarity_score (map (scored ops blob) cs))) 3"
    using assms(1) by (simp add: get_overall_sentiment_def Let_def)
  moreover have "map polarity_score (rows ?df) = map polarity_score (map (scored ops blob) cs)"
    by simp
  ultimately show ?thesis
    using analyze_comments_batch_ok [OF assms, of ops] polarity_score_scored [of ops blob cs]
    by metis
qed

theorem average_polarity_of_rounded_witness:
  "dyadic_batch \<noteq> [] \<and> list_all (\<lambda>c. \<not> isl (blob_stub (comment_text c))) dyadic_batch
   \<and> (\<exists>df st. analyze_comments_batch exact_ops blob_stub dyadic_batch = Inr df
         \<and> get_overall_sentiment exact_ops df = Inr st \<and> average_polarity st = 0.156)"
proof -
  have 1: "dyadic_batch \<noteq> []"
    by (simp add: dyadic_batch_def)
  have 2: "\<forall>c\<in>set dyadic_batch. \<not> isl (blob_stub (comment_text c))"
    by (simp add: dyadic_batch_def mk_comment_def blob_stub_def)
  have 3: "round_np exact_ops (series_mean exact_ops
             (map (\<lambda>c. round_float exact_ops (fst (projr (blob_stub (comment_text c)))) 3)
                dyadic_batch)) 3 = 0.156"
    by code_simp
  from average_polarity_of_rounded [OF 1 2, of exact_ops] obtain df st where
    a: "analyze_comments_batch exact_ops blob_stub dyadic_batch = Inr df"
    and b: "get_overall_sentiment exact_ops df = Inr st"
    and c: "average_polarity st = round_np exact_ops (series_mean exact_ops
             (map (\<lambda>c. round_float exact_ops (fst (projr (blob_stub (comment_text c)))) 3)
                dyadic_batch)) 3"
    by (elim exE conjE) (rule that, assumption+)
  from a b c have 4: "\<exists>df st. analyze_comments_batch exact_ops blob_stub dyadic_batch = Inr df
         \<and> get_overall_sentiment exact_ops df = Inr st \<and> average_polarity st = 0.156"
    unfolding 3 by (intro exI [of _ df] exI [of _ st] conjI)
  from 2 have h2: "list_all (\<lambda>c. \<not> isl (blob_stub (comment_text c))) dyadic_batch"
    by (simp add: list_all_iff)
  show ?thesis
    by (rule conjI [OF 1 conjI [OF h2 4]])
qed

text \<open>
  C4 as stated fails: for four records with polarities 0.5, 0, 0 and 0.125 the rounded
  per-record values are the same four numbers, their mean is 0.15625, and the reported value
  is 0.156. On this input the sum and the division by 4 are exact in floats as well.
\<close>

theorem average_polarity_counterexample:
  "map_sum id average_polarity
     (get_overall_sentiment exact_ops
        (projr (analyze_comments_batch exact_ops blob_stub dyadic_batch))) = Inr 0.156
   \<and> map polarity_score (rows (projr (analyze_comments_batch exact_ops blob_stub dyadic_batch)))
       = [0.5, 0, 0, 0.125]
   \<and> exact_mean [0.5, 0, 0, 0.125] = 0.15625"
  by code_simp

text \<open>
  C5. For every non-empty batch on which the external capability succeeds, \<open>analyze\<close>
  returns a result whose detailed rows are the comments of the batch in order, and in which:
  the overall total is the number of comments, and the count stored for a label (read with
  default 0) is the number of rows with that label; there is one per-provision group for
  each provision of the batch, its \<open>count\<close> is the number of comments with that provision
  and its per-label counts are the numbers of that group's rows with the label; there is
  one per-stakeholder group for each stakeholder of the batch, its total is the number of
  comments of that stakeholder and its three counts are the numbers of that group's rows
  with the label. In each group the per-label counts add up to the group's total.
\<close>

theorem label_counts_sum_to_total:
  assumes "df \<noteq> []" and "\<forall>c\<in>set df. \<not> isl (blob (comment_text c))"
  shows "\<exists>res. analyze ops blob df = Inr res
     \<and> map comment_id (rows (detailed res)) = map comment_id df
     \<and> map provision_reference (rows (detailed res)) = map provision_reference df
     \<and> map stakeholder_name (rows (detailed res)) = map stakeholder_name df
     \<and> total_comments (overall_stats res) = length df
     \<and> (\<forall>l. dict_get (sentiment_distribution (overall_stats res)) l 0 =
              length (filter (\<lambda>r. sentiment r = l) (rows (detailed res))))
     \<and> sum_list (map snd (sentiment_distribution (overall_stats res))) = total_comments (overall_stats res)
     \<and> dict_get (sentiment_distribution (overall_stats res)) ''Positive'' 0
         + dict_get (sentiment_distribution (overall_stats res)) ''Negative'' 0
         + dict_get (sentiment_distribution (overall_stats res)) ''Neutral'' 0
         = total_comments (overall_stats res)
     \<and> fst ` set (by_provision res) = provision_reference ` set df
     \<and> (\<forall>(p, st)\<in>set (by_provision res).
           count st = length (filter (\<lambda>c. provision_reference c = p) df)
           \<and> (\<forall>l. dict_get (sentiments st) l 0 =
                  length (filter (\<lambda>r. provision_reference r = p \<and> sentiment r = l)
                            (rows (detailed res))))
           \<and> sum_list (map snd (sentiments st)) = count st
           \<and> dict_get (sentiments st) ''Positive'' 0 + dict_get (sentiments st) ''Negative'' 0
               + dict_get (sentiments st) ''Neutral'' 0 = count st)
     \<and> fst ` set (by_stakeholder res) = stakeholder_name ` set df
     \<and> (\<forall>(s, c)\<in>set (by_stakeholder res).
           total_c c = length (filter (\<lambda>c. stakeholder_name c = s) df)
           \<and> positive c = length (filter (\<lambda>r. stakeholder_name r = s \<and> sentiment r = ''Positive'')
                                    (rows (detailed res)))
           \<and> negative c = length (filter (\<lambda>r. stakeholder_name r = s \<and> sentiment r = ''Negative'')
                                    (rows (detailed res)))
           \<and> neutral c = length (filter (\<lambda>r. stakeholder_name r = s \<and> sentiment r = ''Neutral'')
                                   (rows (detailed res)))
           \<and> positive c + negative c + neutral c = total_c c)"
proof -
  let ?rs = "map (scored ops blob) df"
  have rs: "?rs \<noteq> []" using assms(1) by simp
  have cols: "map comment_id ?rs = map comment_id df"
    "map provision_reference ?rs = map provision_reference df"
    "map stakeholder_name ?rs = map stakeholder_name df"
    by (simp_all add: scored_def Let_def)
  have flt: "length (filter (\<lambda>r. provision_reference r = p) ?rs)
               = length (filter (\<lambda>c. provision_reference c = p) df)"
    "length (filter (\<lambda>r. stakeholder_name r = p) ?rs)
               = length (filter (\<lambda>c. stakeholder_name c = p) df)" for p
    by (simp_all add: filter_map comp_def scored_def Let_def)
  have img: "provision_reference ` set ?rs = provision_reference ` set df"
    "stakeholder_name ` set ?rs = stakeholder_name ` set df"
    by (simp_all add: image_image scored_def Let_def)
  have three: "length (filter (\<lambda>r. P r \<and> sentiment r = ''Positive'') ?rs)
      + length (filter (\<lambda>r. P r \<and> sentiment r = ''Negative'') ?rs)
      + length (filter (\<lambda>r. P r \<and> sentiment r = ''Neutral'') ?rs)
      = length (filter P ?rs)" for P
  proof -
    have "length (filter (\<lambda>r. sentiment r = ''Positive'') (filter P ?rs))
        + length (filter (\<lambda>r. sentiment r = ''Negative'') (filter P ?rs))
        + length (filter (\<lambda>r. sentiment r = ''Neutral'') (filter P ?rs))
        = length (filter P ?rs)"
      by (rule three_labels_filter) (use sentiment_scored [of ops blob] in auto)
    then show ?thesis by (simp add: conj_commute)
  qed
  obtain res st ps where res: "analyze ops blob df = Inr res"
    and st: "get_overall_sentiment ops (DataFrame True ?rs) = Inr st"
    and ps: "get_provision_wise_sentiment ops (DataFrame True ?rs) = Inr ps"
    and flds: "detailed res = DataFrame True ?rs" "by_provision res = ps"
      "by_stakeholder res = stakeholder_sentiment ?rs" "overall_stats res = st"
    using analyze_ok [OF assms, of ops] by blast
  from get_overall_sentiment_ok [OF rs, of ops] st
  have dist: "sentiment_distribution st = value_counts (map sentiment ?rs)"
    and tot: "total_comments st = length df" by auto
  have a: "\<forall>l. dict_get (sentiment_distribution st) l 0 = length (filter (\<lambda>r. sentiment r = l) ?rs)"
    unfolding dist by (rule allI, rule value_counts_get_map)
  have b: "sum_list (map snd (sentiment_distribution st)) = total_comments st"
    by (simp add: dist tot value_counts_sum)
  have c: "dict_get (sentiment_distribution st) ''Positive'' 0
         + dict_get (sentiment_distribution st) ''Negative'' 0
         + dict_get (sentiment_distribution st) ''Neutral'' 0 = total_comments st"
    using three [of "\<lambda>_. True"] a by (simp add: tot)
  have d: "\<forall>(p, st)\<in>set ps.
           count st = length (filter (\<lambda>c. provision_reference c = p) df)
           \<and> (\<forall>l. dict_get (sentiments st) l 0 =
                  length (filter (\<lambda>r. provision_reference r = p \<and> sentiment r = l) ?rs))
           \<and> sum_list (map snd (sentiments st)) = count st
           \<and> dict_get (sentiments st) ''Positive'' 0 + dict_get (sentiments st) ''Negative'' 0
               + dict_get (sentiments st) ''Neutral'' 0 = count st"
  proof (intro ballI, clarify)
    fix p x assume "(p, x) \<in> set ps"
    with provision_stats_ok(2) [OF ps]
    have 1: "count x = length (filter (\<lambda>r. provision_reference r = p) ?rs)"
      and 2: "\<forall>l. dict_get (sentiments x) l 0 =
                  length (filter (\<lambda>r. provision_reference r = p \<and> sentiment r = l) ?rs)"
      and 3: "sum_list (map snd (sentiments x)) = count x" by auto
    from 2 three [of "\<lambda>r. provision_reference r = p"] 1
    have "dict_get (sentiments x) ''Positive'' 0 + dict_get (sentiments x) ''Negative'' 0
               + dict_get (sentiments x) ''Neutral'' 0 = count x" by simp
    with 1 2 3 flt(1) [of p]
    show "count x = length (filter (\<lambda>c. provision_reference c = p) df)
           \<and> (\<forall>l. dict_get (sentiments x) l 0 =
                  length (filter (\<lambda>r. provision_reference r = p \<and> sentiment r = l) ?rs))
           \<and> sum_list (map snd (sentiments x)) = count x
           \<and> dict_get (sentiments x) ''Positive'' 0 + dict_get (sentiments x) ''Negative'' 0
               + dict_get (sentiments x) ''Neutral'' 0 = count x" by simp
  qed
  have e: "\<forall>(s, c)\<in>set (stakeholder_sentiment ?rs).
           total_c c = length (filter (\<lambda>c. stakeholder_name c = s) df)
           \<and> positive c = length (filter (\<lambda>r. stakeholder_name r = s \<and> sentiment r = ''Positive'') ?rs)
           \<and> negative c = length (filter (\<lambda>r. stakeholder_name r = s \<and> sentiment r = ''Negative'') ?rs)
           \<and> neutral c = length (filter (\<lambda>r. stakeholder_name r = s \<and> sentiment r = ''Neutral'') ?rs)
           \<and> positive c + negative c + neutral c = total_c c"
  proof (intro ballI, clarify)
    fix s x assume "(s, x) \<in> set (stakeholder_sentiment ?rs)"
    with stakeholder_sentiment_ok(2) [of ?rs]
    have 1: "total_c x = length (filter (\<lambda>r. stakeholder_name r = s) ?rs)"
      and 2: "positive x = length (filter (\<lambda>r. stakeholder_name r = s \<and> sentiment r = ''Positive'') ?rs)"
      and 3: "negative x = length (filter (\<lambda>r. stakeholder_name r = s \<and> sentiment r = ''Negative'') ?rs)"
      and 4: "neutral x = length (filter (\<lambda>r. stakeholder_name r = s \<and> sentiment r = ''Neutral'') ?rs)"
      by auto
    from three [of "\<lambda>r. stakeholder_name r = s"] 1 2 3 4
    have "positive x + negative x + neutral x = total_c x" by simp
    with 1 2 3 4 flt(2) [of s]
    show "total_c x = length (filter (\<lambda>c. stakeholder_name c = s) df)
           \<and> positive x = length (filter (\<lambda>r. stakeholder_name r = s \<and> sentiment r = ''Positive'') ?rs)
           \<and> negative x = length (filter (\<lambda>r. stakeholder_name r = s \<and> sentiment r = ''Negative'') ?rs)
           \<and> neutral x = length (filter (\<lambda>r. stakeholder_name r = s \<and> sentiment r = ''Neutral'') ?rs)
           \<and> positive x + negative x + neutral x = total_c x" by simp
  qed
  have f: "fst ` set ps = provision_reference ` set df"
    using provision_stats_ok(1) [OF ps] img(1) by simp
  have g: "fst ` set (stakeholder_sentiment ?rs) = stakeholder_name ` set df"
    using stakeholder_sentiment_ok(1) [of ?rs] img(2) by simp
  show ?thesis
    apply (rule exI [of _ res])
    unfolding flds dataframe.sel
    apply (intro conjI)
    apply (rule res)
    apply (rule cols(1))
    apply (rule cols(2))
    apply (rule cols(3))
    apply (rule tot)
    apply (rule a)
    apply (rule b)
    apply (rule c)
    apply (rule f)
    apply (rule d)
    apply (rule g)
    apply (rule e)
    done
qed

theorem label_counts_sum_to_total_witness:
  "example_batch \<noteq> [] \<and> list_all (\<lambda>c. \<not> isl (blob_stub (comment_text c))) example_batch
   \<and> map_sum id (sentiment_distribution \<circ> overall_stats) (analyze exact_ops blob_stub example_batch)
       = Inr [(''Neutral'', 2), (''Positive'', 1)]
   \<and> map_sum id by_stakeholder (analyze exact_ops blob_stub example_batch)
       = Inr [(''Ann'', \<lparr>positive = 1, negative = 0, neutral = 1, total_c = 2\<rparr>),
              (''Bob'', \<lparr>positive = 0, negative = 0, neutral = 1, total_c = 1\<rparr>)]
   \<and> map_sum id (map (\<lambda>(p, st). (p, count st, sentiments st)) \<circ> by_provision)
         (analyze exact_ops blob_stub example_batch)
       = Inr [(''S1'', 2, [(''Positive'', 1), (''Neutral'', 1)]), (''S2'', 1, [(''Neutral'', 1)])]
   \<and> (\<exists>res. analyze exact_ops blob_stub example_batch = Inr res
         \<and> total_comments (overall_stats res) = length example_batch
         \<and> sum_list (map snd (sentiment_distribution (overall_stats res)))
             = total_comments (overall_stats res)
         \<and> fst ` set (by_provision res) = provision_reference ` set example_batch
         \<and> fst ` set (by_stakeholder res) = stakeholder_name ` set example_batch)"
proof -
  have 1: "example_batch \<noteq> []"
    by (simp add: example_batch_def)
  have 2: "\<forall>c\<in>set example_batch. \<not> isl (blob_stub (comment_text c))"
    by (simp add: example_batch_def mk_comment_def blob_stub_def)
  have 3: "map_sum id (sentiment_distribution \<circ> overall_stats) (analyze exact_ops blob_stub example_batch)
       = Inr [(''Neutral'', 2), (''Positive'', 1)]"
    by code_simp
  have 4: "map_sum id by_stakeholder (analyze exact_ops blob_stub example_batch)
       = Inr [(''Ann'', \<lparr>positive = 1, negative = 0, neutral = 1, total_c = 2\<rparr>),
              (''Bob'', \<lparr>positive = 0, negative = 0, neutral = 1, total_c = 1\<rparr>)]"
    by code_simp
  have 5: "map_sum id (map (\<lambda>(p, st). (p, count st, sentiments st)) \<circ> by_provision)
         (analyze exact_ops blob_stub example_batch)
       = Inr [(''S1'', 2, [(''Positive'', 1), (''Neutral'', 1)]), (''S2'', 1, [(''Neutral'', 1)])]"
    by code_simp
  from label_counts_sum_to_total [OF 1 2, of exact_ops] obtain res where
    a: "analyze exact_ops blob_stub example_batch = Inr res"
    and b: "total_comments (overall_stats res) = length example_batch"
    and c: "sum_list (map snd (sentiment_distribution (overall_stats res)))
             = total_comments (overall_stats res)"
    and d: "fst ` set (by_provision res) = provision_reference ` set example_batch"
    and e: "fst ` set (by_stakeholder res) = stakeholder_name ` set example_batch"
    by (elim exE conjE) (rule that, assumption+)
  from a b c d e have 6: "\<exists>res. analyze exact_ops blob_stub example_batch = Inr res
         \<and> total_comments (overall_stats res) = length example_batch
         \<and> sum_list (map snd (sentiment_distribution (overall_stats res)))
             = total_comments (overall_stats res)
         \<and> fst ` set (by_provision res) = provision_reference ` set example_batch
         \<and> fst ` set (by_stakeholder res) = stakeholder_name ` set example_batch"
    by (intro exI [of _ res] conjI)
  from 2 have h2: "list_all (\<lambda>c. \<not> isl (blob_stub (comment_text c))) example_batch"
    by (simp add: list_all_iff)
  show ?thesis
    by (rule conjI [OF 1 conjI [OF h2 conjI [OF 3 conjI [OF 4 conjI [OF 5 6]]]]])
qed

text \<open>
  C10. For every non-empty batch on which the external capability succeeds, the keys of
  \<open>sentiment_distribution\<close> (the label counts of \<open>get_overall_sentiment\<close>) are exactly the
  labels of the scored records, the keys of the \<open>summary\<close> of \<open>analyze\<close> are exactly their
  lowercase forms, and every stored count is positive: a label no record has is no key at
  all, and reading it with default 0 gives 0.
\<close>

theorem absent_labels_have_no_key:
  assumes "df \<noteq> []" and "\<forall>c\<in>set df. \<not> isl (blob (comment_text c))"
  shows "\<exists>res. analyze ops blob df = Inr res
     \<and> get_overall_sentiment ops (detailed res) = Inr (overall_stats res)
     \<and> (\<forall>l. l \<in> fst ` set (sentiment_distribution (overall_stats res))
              \<longleftrightarrow> (\<exists>r\<in>set (rows (detailed res)). sentiment r = l))
     \<and> (\<forall>(l, n)\<in>set (sentiment_distribution (overall_stats res)). 0 < n)
     \<and> (\<forall>k. k \<in> fst ` set (summary res)
              \<longleftrightarrow> (\<exists>r\<in>set (rows (detailed res)). lower (sentiment r) = k))
     \<and> (\<forall>(k, n)\<in>set (summary res). 0 < n)
     \<and> (\<forall>k. dict_get (summary res) k 0 = 0
              \<longleftrightarrow> \<not> (\<exists>r\<in>set (rows (detailed res)). lower (sentiment r) = k))"
proof -
  let ?rs = "map (scored ops blob) df"
  have rs: "?rs \<noteq> []" using assms(1) by simp
  obtain res st where res: "analyze ops blob df = Inr res"
    and st: "get_overall_sentiment ops (DataFrame True ?rs) = Inr st"
    and flds: "summary res = sentiment_summary (sentiment_distribution st)"
      "detailed res = DataFrame True ?rs" "overall_stats res = st"
    using analyze_ok [OF assms] by blast
  from get_overall_sentiment_ok [OF rs, of ops] st
  have dist: "sentiment_distribution st = value_counts (map sentiment ?rs)" by auto
  have a: "l \<in> fst ` set (sentiment_distribution st) \<longleftrightarrow> (\<exists>r\<in>set ?rs. sentiment r = l)" for l
    unfolding dist value_counts_keys by auto
  have b: "\<forall>kv\<in>set (sentiment_distribution st). 0 < snd kv"
    unfolding dist by (rule value_counts_pos)
  have c: "k \<in> fst ` set (summary res) \<longleftrightarrow> (\<exists>r\<in>set ?rs. lower (sentiment r) = k)" for k
    unfolding flds(1) sentiment_summary_keys dist value_counts_keys by auto
  have d: "\<forall>kv\<in>set (summary res). 0 < snd kv"
  proof
    fix kv assume "kv \<in> set (summary res)"
    then have "snd kv \<in> snd ` set (sentiment_distribution st)"
      unfolding flds(1) by (rule sentiment_summary_vals)
    with b show "0 < snd kv" by auto
  qed
  have e: "dict_get (summary res) k 0 = 0 \<longleftrightarrow> \<not> (\<exists>r\<in>set ?rs. lower (sentiment r) = k)" for k
    using dict_get_zero_iff [OF d, of k] c [of k] by simp
  have b': "\<forall>(l, n)\<in>set (sentiment_distribution st). 0 < n" using b by auto
  have d': "\<forall>(k, n)\<in>set (summary res). 0 < n" using d by auto
  show ?thesis
    using res st a b' c d' e by (simp add: flds(2,3))
qed

theorem absent_labels_have_no_key_witness:
  "example_batch \<noteq> [] \<and> list_all (\<lambda>c. \<not> isl (blob_stub (comment_text c))) example_batch
   \<and> map_sum id summary (analyze exact_ops blob_stub example_batch)
       = Inr [(''neutral'', 2), (''positive'', 1)]
   \<and> (\<exists>res. analyze exact_ops blob_stub example_batch = Inr res
         \<and> ''negative'' \<notin> fst ` set (summary res)
         \<and> dict_get (summary res) ''negative'' 0 = 0)"
proof -
  have 1: "example_batch \<noteq> []"
    by (simp add: example_batch_def)
  have 2: "\<forall>c\<in>set example_batch. \<not> isl (blob_stub (comment_text c))"
    by (simp add: example_batch_def mk_comment_def blob_stub_def)
  have 3: "map_sum id summary (analyze exact_ops blob_stub example_batch)
       = Inr [(''neutral'', 2), (''positive'', 1)]"
    by code_simp
  from absent_labels_have_no_key [OF 1 2, of exact_ops] obtain res where
    res: "analyze exact_ops blob_stub example_batch = Inr res"
    and keys: "\<forall>k. k \<in> fst ` set (summary res)
              \<longleftrightarrow> (\<exists>r\<in>set (rows (detailed res)). lower (sentiment r) = k)"
    and zero: "\<forall>k. dict_get (summary res) k 0 = 0
              \<longleftrightarrow> \<not> (\<exists>r\<in>set (rows (detailed res)). lower (sentiment r) = k)"
    by (elim exE conjE) (rule that, assumption+)
  from 3 res have "summary res = [(''neutral'', 2), (''positive'', 1)]" by simp
  then have neg: "''negative'' \<notin> fst ` set (summary res)" by simp
  with keys have "\<not> (\<exists>r\<in>set (rows (detailed res)). lower (sentiment r) = ''negative'')"
    by simp
  with zero have "dict_get (summary res) ''negative'' 0 = 0" by simp
  with res neg have "\<exists>res. analyze exact_ops blob_stub example_batch = Inr res
         \<and> ''negative'' \<notin> fst ` set (summary res)
         \<and> dict_get (summary res) ''negative'' 0 = 0" by blast
  then show ?thesis
    using 1 2 3 unfolding list_all_iff by simp
qed

text \<open>
  C6. \<open>create_stakeholder_summary\<close> puts the scored row of every comment into exactly one of
  the five groups Business, Legal, Government, Individual and Association: whenever the table
  of scored rows has a row for each comment, the loop ends with these five groups, the group
  \<open>g\<close> holding, in order, the rows of exactly those comments whose lowercased stakeholder name
  is given the group \<open>g\<close>, and the summary has an entry for exactly the groups that received a
  comment, with the number of its comments. The group of a lowercased name is Legal exactly
  when the name contains one of the Legal keywords, Business exactly when it contains no
  Legal keyword and some Business keyword, and so on in that order, with Individual exactly
  when it contains no keyword at all. "Acme Legal Partners" goes to Legal.
\<close>

theorem stakeholder_group_priority:
  "(has_columns sdf \<and> (\<forall>c\<in>set cs. \<exists>r\<in>set (rows sdf). comment_id r = comment_id c) \<longrightarrow>
      (\<exists>groups summ. group_loop cs sdf stakeholder_groups_init = Inr groups
         \<and> create_stakeholder_summary ops cs sdf = Inr summ
         \<and> map fst groups = [''Business'', ''Legal'', ''Government'', ''Individual'', ''Association'']
         \<and> (\<forall>g. map Some (dict_get groups g []) =
                map (\<lambda>c. find (\<lambda>r. comment_id r = comment_id c) (rows sdf))
                  (filter (\<lambda>c. stakeholder_group (lower (stakeholder_name c)) = g) cs))
         \<and> (\<forall>g. g \<in> fst ` set summ \<longleftrightarrow>
                (\<exists>c\<in>set cs. stakeholder_group (lower (stakeholder_name c)) = g))
         \<and> (\<forall>(g, st)\<in>set summ. group_count st =
                length (filter (\<lambda>c. stakeholder_group (lower (stakeholder_name c)) = g) cs))))
   \<and> stakeholder_group (lower n) \<in> {''Legal'', ''Business'', ''Government'', ''Association'', ''Individual''}
   \<and> (stakeholder_group (lower n) = ''Legal'' \<longleftrightarrow>
        (\<exists>k\<in>set [''firm'', ''legal'', ''lawyer'']. \<exists>pre suf. lower n = pre @ k @ suf))
   \<and> (stakeholder_group (lower n) = ''Business'' \<longleftrightarrow>
        \<not> (\<exists>k\<in>set [''firm'', ''legal'', ''lawyer'']. \<exists>pre suf. lower n = pre @ k @ suf)
        \<and> (\<exists>k\<in>set [''business'', ''company'', ''ceo'', ''founder'']. \<exists>pre suf. lower n = pre @ k @ suf))
   \<and> (stakeholder_group (lower n) = ''Government'' \<longleftrightarrow>
        \<not> (\<exists>k\<in>set [''firm'', ''legal'', ''lawyer'', ''business'', ''company'', ''ceo'', ''founder''].
              \<exists>pre suf. lower n = pre @ k @ suf)
        \<and> (\<exists>k\<in>set [''ministry'', ''government'']. \<exists>pre suf. lower n = pre @ k @ suf))
   \<and> (stakeholder_group (lower n) = ''Association'' \<longleftrightarrow>
        \<not> (\<exists>k\<in>set [''firm'', ''legal'', ''lawyer'', ''business'', ''company'', ''ceo'', ''founder'',
                      ''ministry'', ''government'']. \<exists>pre suf. lower n = pre @ k @ suf)
        \<and> (\<exists>k\<in>set [''association'', ''chamber'', ''group'', ''org'']. \<exists>pre suf. lower n = pre @ k @ suf))
   \<and> (stakeholder_group (lower n) = ''Individual'' \<longleftrightarrow>
        \<not> (\<exists>k\<in>set [''firm'', ''legal'', ''lawyer'', ''business'', ''company'', ''ceo'', ''founder'',
                      ''ministry'', ''government'', ''association'', ''chamber'', ''group'', ''org''].
              \<exists>pre suf. lower n = pre @ k @ suf))
   \<and> stakeholder_group (lower ''Acme Legal Partners'') = ''Legal''
   \<and> map_sum id (map (\<lambda>(g, rs). (g, map stakeholder_name rs)))
        (group_loop stakeholder_batch stakeholder_frame stakeholder_groups_init)
       = Inr [(''Business'', []), (''Legal'', [''Acme Legal Partners'']),
              (''Government'', [''Ministry of Finance'']), (''Individual'', [''Jane Doe'']),
              (''Association'', [])]"
proof -
  have loop: "has_columns sdf \<and> (\<forall>c\<in>set cs. \<exists>r\<in>set (rows sdf). comment_id r = comment_id c) \<longrightarrow>
      (\<exists>groups summ. group_loop cs sdf stakeholder_groups_init = Inr groups
         \<and> create_stakeholder_summary ops cs sdf = Inr summ
         \<and> map fst groups = [''Business'', ''Legal'', ''Government'', ''Individual'', ''Association'']
         \<and> (\<forall>g. map Some (dict_get groups g []) =
                map (\<lambda>c. find (\<lambda>r. comment_id r = comment_id c) (rows sdf))
                  (filter (\<lambda>c. stakeholder_group (lower (stakeholder_name c)) = g) cs))
         \<and> (\<forall>g. g \<in> fst ` set summ \<longleftrightarrow>
                (\<exists>c\<in>set cs. stakeholder_group (lower (stakeholder_name c)) = g))
         \<and> (\<forall>(g, st)\<in>set summ. group_count st =
                length (filter (\<lambda>c. stakeholder_group (lower (stakeholder_name c)) = g) cs)))"
  proof
    assume h: "has_columns sdf \<and> (\<forall>c\<in>set cs. \<exists>r\<in>set (rows sdf). comment_id r = comment_id c)"
    show "\<exists>groups summ. group_loop cs sdf stakeholder_groups_init = Inr groups
         \<and> create_stakeholder_summary ops cs sdf = Inr summ
         \<and> map fst groups = [''Business'', ''Legal'', ''Government'', ''Individual'', ''Association'']
         \<and> (\<forall>g. map Some (dict_get groups g []) =
                map (\<lambda>c. find (\<lambda>r. comment_id r = comment_id c) (rows sdf))
                  (filter (\<lambda>c. stakeholder_group (lower (stakeholder_name c)) = g) cs))
         \<and> (\<forall>g. g \<in> fst ` set summ \<longleftrightarrow>
                (\<exists>c\<in>set cs. stakeholder_group (lower (stakeholder_name c)) = g))
         \<and> (\<forall>(g, st)\<in>set summ. group_count st =
                length (filter (\<lambda>c. stakeholder_group (lower (stakeholder_name c)) = g) cs))"
      by (rule stakeholder_summary_ok [OF conjunct1 [OF h] conjunct2 [OF h]])
  qed
  have acme: "stakeholder_group (lower ''Acme Legal Partners'') = ''Legal''"
    by code_simp
  have run: "map_sum id (map (\<lambda>(g, rs). (g, map stakeholder_name rs)))
        (group_loop stakeholder_batch stakeholder_frame stakeholder_groups_init)
       = Inr [(''Business'', []), (''Legal'', [''Acme Legal Partners'']),
              (''Government'', [''Ministry of Finance'']), (''Individual'', [''Jane Doe'']),
              (''Association'', [])]"
    by code_simp
  have b: "(\<exists>pre suf. lower n = pre @ k @ suf) \<longleftrightarrow> contains k (lower n)" for k
    by (simp add: contains_iff)
  have prio: "stakeholder_group (lower n) \<in> {''Legal'', ''Business'', ''Government'', ''Association'', ''Individual''}
   \<and> (stakeholder_group (lower n) = ''Legal'' \<longleftrightarrow>
        (\<exists>k\<in>set [''firm'', ''legal'', ''lawyer'']. \<exists>pre suf. lower n = pre @ k @ suf))
   \<and> (stakeholder_group (lower n) = ''Business'' \<longleftrightarrow>
        \<not> (\<exists>k\<in>set [''firm'', ''legal'', ''lawyer'']. \<exists>pre suf. lower n = pre @ k @ suf)
        \<and> (\<exists>k\<in>set [''business'', ''company'', ''ceo'', ''founder'']. \<exists>pre suf. lower n = pre @ k @ suf))
   \<and> (stakeholder_group (lower n) = ''Government'' \<longleftrightarrow>
        \<not> (\<exists>k\<in>set [''firm'', ''legal'', ''lawyer'', ''business'', ''company'', ''ceo'', ''founder''].
              \<exists>pre suf. lower n = pre @ k @ suf)
        \<and> (\<exists>k\<in>set [''ministry'', ''government'']. \<exists>pre suf. lower n = pre @ k @ suf))
   \<and> (stakeholder_group (lower n) = ''Association'' \<longleftrightarrow>
        \<not> (\<exists>k\<in>set [''firm'', ''legal'', ''lawyer'', ''business'', ''company'', ''ceo'', ''founder'',
                      ''ministry'', ''government'']. \<exists>pre suf. lower n = pre @ k @ suf)
        \<and> (\<exists>k\<in>set [''association'', ''chamber'', ''group'', ''org'']. \<exists>pre suf. lower n = pre @ k @ suf))
   \<and> (stakeholder_group (lower n) = ''Individual'' \<longleftrightarrow>
        \<not> (\<exists>k\<in>set [''firm'', ''legal'', ''lawyer'', ''business'', ''company'', ''ceo'', ''founder'',
                      ''ministry'', ''government'', ''association'', ''chamber'', ''group'', ''org''].
              \<exists>pre suf. lower n = pre @ k @ suf))
   \<and> stakeholder_group (lower ''Acme Legal Partners'') = ''Legal''"
    unfolding b using acme by (simp add: stakeholder_group_def)
  have tail: "(P1 \<and> P2 \<and> P3 \<and> P4 \<and> P5 \<and> P6 \<and> P7) \<Longrightarrow> P8 \<Longrightarrow>
      (P1 \<and> P2 \<and> P3 \<and> P4 \<and> P5 \<and> P6 \<and> P7 \<and> P8)" for P1 P2 P3 P4 P5 P6 P7 P8
    by blast
  show ?thesis
    by (rule conjI [OF loop tail [OF prio run]])
qed

theorem stakeholder_group_priority_witness:
  "has_columns stakeholder_frame
   \<and> list_all (\<lambda>c. list_ex (\<lambda>r. comment_id r = comment_id c) (rows stakeholder_frame))
        stakeholder_batch
   \<and> map_sum id (map (\<lambda>(g, st). (g, group_count st)))
        (create_stakeholder_summary exact_ops stakeholder_batch stakeholder_frame)
       = Inr [(''Legal'', 1), (''Government'', 1), (''Individual'', 1)]
   \<and> (\<exists>groups summ.
         group_loop stakeholder_batch stakeholder_frame stakeholder_groups_init = Inr groups
         \<and> create_stakeholder_summary exact_ops stakeholder_batch stakeholder_frame = Inr summ
         \<and> map fst groups = [''Business'', ''Legal'', ''Government'', ''Individual'', ''Association''])"
proof -
  have 1: "has_columns stakeholder_frame"
    by code_simp
  have 2: "list_all (\<lambda>c. list_ex (\<lambda>r. comment_id r = comment_id c) (rows stakeholder_frame))
        stakeholder_batch"
    by code_simp
  then have h2: "\<forall>c\<in>set stakeholder_batch. \<exists>r\<in>set (rows stakeholder_frame). comment_id r = comment_id c"
    by (simp only: list_all_iff list_ex_iff)
  have 3: "map_sum id (map (\<lambda>(g, st). (g, group_count st)))
        (create_stakeholder_summary exact_ops stakeholder_batch stakeholder_frame)
       = Inr [(''Legal'', 1), (''Government'', 1), (''Individual'', 1)]"
    by code_simp
  from stakeholder_group_priority
      [where sdf = stakeholder_frame and cs = stakeholder_batch and ops = exact_ops,
        THEN conjunct1, THEN mp, OF conjI [OF 1 h2]]
  obtain groups summ where
    a: "group_loop stakeholder_batch stakeholder_frame stakeholder_groups_init = Inr groups"
    and b: "create_stakeholder_summary exact_ops stakeholder_batch stakeholder_frame = Inr summ"
    and c: "map fst groups = [''Business'', ''Legal'', ''Government'', ''Individual'', ''Association'']"
    by (elim exE conjE) (rule that, assumption+)
  from a b c have 4: "\<exists>groups summ.
         group_loop stakeholder_batch stakeholder_frame stakeholder_groups_init = Inr groups
         \<and> create_stakeholder_summary exact_ops stakeholder_batch stakeholder_frame = Inr summ
         \<and> map fst groups = [''Business'', ''Legal'', ''Government'', ''Individual'', ''Association'']"
    by (intro exI [of _ groups] exI [of _ summ] conjI)
  show ?thesis
    by (rule conjI [OF 1 conjI [OF 2 conjI [OF 3 4]]])
qed

text \<open>
  C7. For every text and every \<open>n\<close>, \<open>extract_keywords\<close> returns at most \<open>n\<close> pairs (none for
  \<open>n \<le> 0\<close>), by descending count, pairs of equal count in the order in which their tokens
  were first met; each returned token is no stop word, is longer than 3 characters, and
  comes with the number of its occurrences among the tokens of the cleaned text.
\<close>

theorem extract_keywords_top:
  "length (extract_keywords text n) \<le> nat n
   \<and> sorted_wrt (\<lambda>a b. snd a > snd b \<or>
        (snd a = snd b \<and> first_pos (keywords_of text) (fst a) < first_pos (keywords_of text) (fst b)))
       (extract_keywords text n)
   \<and> (\<forall>(w, c)\<in>set (extract_keywords text n).
         w \<notin> set stop_words \<and> 3 < length w
         \<and> w \<in> set (split (re_sub_nonalpha (lower text)))
         \<and> c = count_list (split (re_sub_nonalpha (lower text))) w \<and> 0 < c)"
proof -
  let ?toks = "split (re_sub_nonalpha (lower text))"
  have 1: "length (extract_keywords text n) \<le> nat n"
    unfolding extract_keywords_def by (rule most_common_length)
  have 2: "sorted_wrt (\<lambda>a b. snd a > snd b \<or>
        (snd a = snd b \<and> first_pos (keywords_of text) (fst a) < first_pos (keywords_of text) (fst b)))
       (extract_keywords text n)"
    unfolding extract_keywords_def by (rule most_common_sorted)
  have 3: "\<forall>(w, c)\<in>set (extract_keywords text n).
         w \<notin> set stop_words \<and> 3 < length w \<and> w \<in> set ?toks \<and> c = count_list ?toks w \<and> 0 < c"
  proof (intro ballI, clarify)
    fix w c assume "(w, c) \<in> set (extract_keywords text n)"
    then have in_counter: "(w, c) \<in> set (Counter (keywords_of text))"
      using most_common_subset [of n "Counter (keywords_of text)"]
      unfolding extract_keywords_def by blast
    then have w: "w \<in> set (keywords_of text)" and c: "c = count_list (keywords_of text) w"
      by (simp_all add: Counter_entry)
    from in_counter Counter_pos [of "keywords_of text"] have pos: "0 < c" by force
    from w have props: "w \<in> set ?toks" "w \<notin> set stop_words" "3 < length w"
      by (simp_all add: keywords_of_def)
    have "count_list (keywords_of text) w = count_list ?toks w"
      unfolding keywords_of_def using props(2,3) by (intro count_list_filter) simp
    with c pos props
    show "w \<notin> set stop_words \<and> 3 < length w \<and> w \<in> set ?toks \<and> c = count_list ?toks w \<and> 0 < c"
      by simp
  qed
  show ?thesis by (rule conjI [OF 1 conjI [OF 2 3]])
qed

theorem extract_keywords_top_witness:
  "extract_keywords ''The compliance burden and the Compliance cost... Burden! growth'' 2
     = [(''compliance'', 2), (''burden'', 2)]
   \<and> length (extract_keywords ''The compliance burden and the Compliance cost... Burden! growth'' 2)
       \<le> nat 2
   \<and> ''compliance'' \<notin> set stop_words \<and> 3 < length ''compliance''"
proof -
  have 1: "extract_keywords ''The compliance burden and the Compliance cost... Burden! growth'' 2
     = [(''compliance'', 2), (''burden'', 2)]"
    by code_simp
  have 2: "\<forall>(w, c)\<in>set (extract_keywords
        ''The compliance burden and the Compliance cost... Burden! growth'' 2).
      w \<notin> set stop_words \<and> 3 < length w"
    using extract_keywords_top
      [of "''The compliance burden and the Compliance cost... Burden! growth''" 2]
    by fast
  have 3: "length (extract_keywords
      ''The compliance burden and the Compliance cost... Burden! growth'' 2) \<le> nat 2"
    using extract_keywords_top
      [of "''The compliance burden and the Compliance cost... Burden! growth''" 2]
    by (rule conjunct1)
  from 2 have 4: "''compliance'' \<notin> set stop_words \<and> 3 < length ''compliance''"
    unfolding 1 by simp
  show ?thesis by (rule conjI [OF 1 conjI [OF 3 4]])
qed

text \<open>
  C8. For every text, \<open>_get_word_frequency\<close> has one entry for each counted token (a token of
  the cleaned text that is no stop word and longer than 2 characters), whose weight is the
  token's count divided by the largest count of a counted token; a token of largest count
  has weight exactly 1, and there is one whenever a token is counted. For a text of white
  space only (the empty text included) the result is empty.
\<close>

theorem get_word_frequency_normalized:
  "(\<forall>(w, x)\<in>set (get_word_frequency text).
       w \<in> set (frequency_words text)
       \<and> x = real (count_list (frequency_words text) w) /
             real (Max (count_list (frequency_words text) ` set (frequency_words text))))
   \<and> fst ` set (get_word_frequency text) = set (frequency_words text)
   \<and> distinct (map fst (get_word_frequency text))
   \<and> (\<forall>w\<in>set (frequency_words text).
        (\<forall>v\<in>set (frequency_words text).
            count_list (frequency_words text) v \<le> count_list (frequency_words text) w)
        \<longrightarrow> (w, 1) \<in> set (get_word_frequency text))
   \<and> (frequency_words text \<noteq> [] \<longrightarrow> (\<exists>w. (w, 1) \<in> set (get_word_frequency text)))
   \<and> ((\<forall>c\<in>set text. isspace c) \<longrightarrow> get_word_frequency text = [])"
proof -
  let ?fw = "frequency_words text"
  let ?m = "Max (count_list ?fw ` set ?fw)"
  have 1: "\<forall>(w, x)\<in>set (get_word_frequency text).
       w \<in> set ?fw \<and> x = real (count_list ?fw w) / real ?m"
  proof (cases "?fw = []")
    case True
    then show ?thesis by (simp add: get_word_frequency_def Counter_Nil)
  next
    case False
    show ?thesis using get_word_frequency_entry [OF False] by blast
  qed
  have "set (map fst (get_word_frequency text)) = set ?fw"
    unfolding get_word_frequency_keys by (rule Counter_keys_set)
  then have 2: "fst ` set (get_word_frequency text) = set ?fw" by simp
  have 3: "distinct (map fst (get_word_frequency text))"
    unfolding get_word_frequency_keys by (rule Counter_distinct)
  have top: "(w, 1) \<in> set (get_word_frequency text)"
    if w: "w \<in> set ?fw" and mx: "\<forall>v\<in>set ?fw. count_list ?fw v \<le> count_list ?fw w" for w
  proof -
    from w have ne: "?fw \<noteq> []" by auto
    have "?m = count_list ?fw w"
      using w mx by (intro Max_eqI) auto
    moreover have "0 < count_list ?fw w" using w count_list_0_iff [of ?fw w] by auto
    ultimately have "real (count_list ?fw w) / real ?m = 1" by simp
    with w show ?thesis by (simp add: get_word_frequency_entry [OF ne])
  qed
  then have 4: "\<forall>w\<in>set ?fw. (\<forall>v\<in>set ?fw. count_list ?fw v \<le> count_list ?fw w)
        \<longrightarrow> (w, 1) \<in> set (get_word_frequency text)" by blast
  have 5: "?fw \<noteq> [] \<longrightarrow> (\<exists>w. (w, 1) \<in> set (get_word_frequency text))"
  proof
    assume ne: "?fw \<noteq> []"
    then have "?m \<in> count_list ?fw ` set ?fw" by (intro Max_in) auto
    then obtain w where w: "w \<in> set ?fw" and eq: "count_list ?fw w = ?m" by auto
    have "\<forall>v\<in>set ?fw. count_list ?fw v \<le> count_list ?fw w"
      unfolding eq by (auto intro: Max_ge)
    with w top show "\<exists>w. (w, 1) \<in> set (get_word_frequency text)" by blast
  qed
  have 6: "(\<forall>c\<in>set text. isspace c) \<longrightarrow> get_word_frequency text = []"
    by (simp add: get_word_frequency_def frequency_words_space Counter_Nil)
  show ?thesis
    by (rule conjI [OF 1 conjI [OF 2 conjI [OF 3 conjI [OF 4 conjI [OF 5 6]]]]])
qed

theorem get_word_frequency_normalized_witness:
  "get_word_frequency ''The compliance burden and the Compliance cost... Burden!''
     = [(''compliance'', 1), (''burden'', 1), (''cost'', 1 / 2)]
   \<and> frequency_words ''The compliance burden and the Compliance cost... Burden!'' \<noteq> []
   \<and> (\<exists>w. (w, 1) \<in> set (get_word_frequency
                ''The compliance burden and the Compliance cost... Burden!''))
   \<and> list_all isspace ''   ''
   \<and> get_word_frequency ''   '' = []"
proof -
  have 1: "get_word_frequency ''The compliance burden and the Compliance cost... Burden!''
     = [(''compliance'', 1), (''burden'', 1), (''cost'', 1 / 2)]"
    by code_simp
  have 2: "frequency_words ''The compliance burden and the Compliance cost... Burden!'' \<noteq> []"
    by code_simp
  have 3: "\<exists>w. (w, 1) \<in> set (get_word_frequency
                ''The compliance burden and the Compliance cost... Burden!'')"
    using get_word_frequency_normalized
      [of "''The compliance burden and the Compliance cost... Burden!''",
        THEN conjunct2, THEN conjunct2, THEN conjunct2, THEN conjunct2, THEN conjunct1] 2
    by (rule mp)
  have 4: "list_all isspace ''   ''"
    by code_simp
  then have "\<forall>c\<in>set ''   ''. isspace c"
    by (simp only: list_all_iff)
  with get_word_frequency_normalized
      [of "''   ''", THEN conjunct2, THEN conjunct2, THEN conjunct2, THEN conjunct2,
        THEN conjunct2]
  have 5: "get_word_frequency ''   '' = []"
    by (rule mp)
  show ?thesis
    by (rule conjI [OF 1 conjI [OF 2 conjI [OF 3 conjI [OF 4 5]]]])
qed

text \<open>
  C9 (as the code has it). For every text and every \<open>max_length\<close>,
  \<open>summarize_single_comment\<close> returns the text unchanged when it has at most \<open>max_length\<close>
  words; otherwise, for \<open>max_length \<ge> 0\<close>, the result has at most \<open>max_length + 1\<close> words.
\<close>

theorem summarize_single_comment_bound:
  "(int (length (split text)) \<le> max_length \<longrightarrow> summarize_single_comment text max_length = text)
   \<and> (0 \<le> max_length \<and> max_length < int (length (split text)) \<longrightarrow>
        int (length (split (summarize_single_comment text max_length))) \<le> max_length + 1)"
proof (intro conjI impI)
  assume "int (length (split text)) \<le> max_length"
  then show "summarize_single_comment text max_length = text"
    by (simp add: summarize_single_comment_def)
next
  assume a: "0 \<le> max_length \<and> max_length < int (length (split text))"
  let ?summary = "join ''. '' (map fst (take 2 (sort_key (\<lambda>kv. - snd kv)
      (sentence_scores (get_word_frequency text) (split_on CHR ''.'' text)))))"
  have b: "int (length (split (join '' '' (slice_to max_length (split s)) @ ''...''))) \<le> max_length + 1" for s
    using a by (intro truncate_bound) simp
  consider (short) "length (split_on CHR ''.'' text) \<le> 2"
    | (cut) "\<not> length (split_on CHR ''.'' text) \<le> 2" "int (length (split ?summary)) > max_length"
    | (keep) "\<not> length (split_on CHR ''.'' text) \<le> 2" "\<not> int (length (split ?summary)) > max_length"
    by blast
  then show "int (length (split (summarize_single_comment text max_length))) \<le> max_length + 1"
  proof cases
    case short
    with a have "summarize_single_comment text max_length =
        join '' '' (slice_to max_length (split text)) @ ''...''"
      by (simp add: summarize_single_comment_def Let_def)
    then show ?thesis using b [of "text"] by simp
  next
    case cut
    with a have "summarize_single_comment text max_length =
        join '' '' (slice_to max_length (split ?summary)) @ ''...''"
      by (simp add: summarize_single_comment_def Let_def)
    then show ?thesis using b [of ?summary] by simp
  next
    case keep
    with a have "summarize_single_comment text max_length = ?summary"
      by (simp add: summarize_single_comment_def Let_def)
    then show ?thesis using keep(2) by simp
  qed
qed

theorem summarize_single_comment_bound_witness:
  "int (length (split ''one two. three four five. six seven eight nine. ten'')) \<le> 10
   \<and> summarize_single_comment ''one two. three four five. six seven eight nine. ten'' 10
       = ''one two. three four five. six seven eight nine. ten''
   \<and> (0::int) \<le> 3
   \<and> 3 < int (length (split ''one two. three four five. six seven eight nine. ten''))
   \<and> summarize_single_comment ''one two. three four five. six seven eight nine. ten'' 3
       = ''one two. three...''
   \<and> int (length (split (summarize_single_comment
         ''one two. three four five. six seven eight nine. ten'' 3))) \<le> 3 + 1"
proof -
  let ?T = "''one two. three four five. six seven eight nine. ten''"
  have 1: "int (length (split ?T)) \<le> 10"
    by code_simp
  have 2: "summarize_single_comment ?T 10 = ?T"
    using summarize_single_comment_bound [of ?T 10, THEN conjunct1] 1 by (rule mp)
  have 3: "(0::int) \<le> 3"
    by simp
  have 4: "3 < int (length (split ?T))"
    by code_simp
  have 5: "summarize_single_comment ?T 3 = ''one two. three...''"
    by code_simp
  have 6: "int (length (split (summarize_single_comment ?T 3))) \<le> 3 + 1"
    using summarize_single_comment_bound [of ?T 3, THEN conjunct2] conjI [OF 3 4] by (rule mp)
  show ?thesis
    by (rule conjI [OF 1 conjI [OF 2 conjI [OF 3 conjI [OF 4 conjI [OF 5 6]]]]])
qed

text \<open>
  C9 as stated fails for a negative \<open>max_length\<close>: the slice \<open>words[:-1]\<close> drops only the last
  word, so three words with \<open>max_length = -1\<close> give two words, more than \<open>max_length + 1 = 0\<close>.
\<close>

theorem summarize_single_comment_negative_counterexample:
  "length (split ''a b c'') = 3
   \<and> summarize_single_comment ''a b c'' (- 1) = ''a b...''
   \<and> split (summarize_single_comment ''a b c'' (- 1)) = [''a'', ''b...'']"
  by code_simp

end
